theory Spec2Isabelle
  imports Complex_Main "HOL-Library.Multiset" "HOL-Library.List_Lexorder" "HOL-Library.Char_ord"
begin

section \<open>JavaScript values\<close>

text \<open>
  The table renderer (\<^verbatim>\<open>table-maker\<close>) and the tab container (\<^verbatim>\<open>tab-handler\<close>) work on
  JSON-like values. A number is a rational (every finite double is one) or one of the
  three special values of the number type; the result of an arithmetic operator is rounded
  to a double by a function that the host supplies, and negative zero is not told apart
  from zero. An object is an association list in property order, with distinct keys that are not names of
  members of \<^verbatim>\<open>Object.prototype\<close>.
\<close>

datatype num = Fin rat | PInf | NInf | NaN

datatype jsval =
    JUndef
  | JNull
  | JBool bool
  | JNum num
  | JStr string
  | JArr "jsval list"
  | JObj "(string \<times> jsval) list"

text \<open>
  What a computation throws (\<open>DomSyntaxError\<close> is the \<^verbatim>\<open>DOMException\<close> named \<^verbatim>\<open>SyntaxError\<close> of
  an invalid selector). \<open>Unmodelled\<close> is not an exception of the program: it marks
  an input outside the data model (a row that is not an object; a style configuration,
  a column table or an aggregate table that is an array or a string), about which the
  model says nothing.
\<close>

datatype js_error = TypeError | RangeError | SyntaxError | DomSyntaxError | Unmodelled

type_synonym obj = "(string \<times> jsval) list"

subsection \<open>Numbers\<close>

fun num_neg :: "num \<Rightarrow> num" where
  "num_neg (Fin a) = Fin (- a)"
| "num_neg PInf = NInf"
| "num_neg NInf = PInf"
| "num_neg NaN = NaN"

text \<open>
  The operators \<^verbatim>\<open>+\<close> and \<^verbatim>\<open>-\<close> on numbers: the exact result of two finite operands is
  rounded by \<open>rnd\<close>, the rounding to the nearest double.
\<close>

fun num_add :: "(rat \<Rightarrow> num) \<Rightarrow> num \<Rightarrow> num \<Rightarrow> num" where
  "num_add rnd NaN _ = NaN"
| "num_add rnd _ NaN = NaN"
| "num_add rnd (Fin a) (Fin b) = rnd (a + b)"
| "num_add rnd PInf NInf = NaN"
| "num_add rnd NInf PInf = NaN"
| "num_add rnd PInf _ = PInf"
| "num_add rnd _ PInf = PInf"
| "num_add rnd NInf _ = NInf"
| "num_add rnd _ NInf = NInf"

definition num_sub :: "(rat \<Rightarrow> num) \<Rightarrow> num \<Rightarrow> num \<Rightarrow> num" where
  "num_sub rnd a b = num_add rnd a (num_neg b)"

text \<open>
  Multiplication by a positive finite constant (\<^verbatim>\<open>val * 100\<close>, and \<^verbatim>\<open>raw / 1e5\<close> as the
  multiplication of the exact values by \<open>1 / 100000\<close>): the exact result is rounded.
\<close>

fun num_scale :: "(rat \<Rightarrow> num) \<Rightarrow> rat \<Rightarrow> num \<Rightarrow> num" where
  "num_scale rnd c (Fin a) = rnd (c * a)"
| "num_scale rnd c n = n"

text \<open>The relational operator \<^verbatim>\<open><\<close> on numbers: false whenever an operand is NaN.\<close>

fun num_lt :: "num \<Rightarrow> num \<Rightarrow> bool" where
  "num_lt NaN _ = False"
| "num_lt _ NaN = False"
| "num_lt (Fin a) (Fin b) = (a < b)"
| "num_lt NInf NInf = False"
| "num_lt NInf _ = True"
| "num_lt _ NInf = False"
| "num_lt PInf _ = False"
| "num_lt _ PInf = True"

definition is_nan :: "num \<Rightarrow> bool" where
  "is_nan n = (n = NaN)"

fun is_finite :: "num \<Rightarrow> bool" where
  "is_finite (Fin _) = True"
| "is_finite _ = False"

subsection \<open>Property access and coercions\<close>

definition isArray :: "jsval \<Rightarrow> bool" where
  "isArray v = (case v of JArr _ \<Rightarrow> True | _ \<Rightarrow> False)"

definition nullish :: "jsval \<Rightarrow> bool" where
  "nullish v = (v = JUndef \<or> v = JNull)"

text \<open>\<^verbatim>\<open>a ?? b\<close>\<close>

definition nc :: "jsval \<Rightarrow> jsval \<Rightarrow> jsval" where
  "nc a b = (if nullish a then b else a)"

text \<open>
  \<^verbatim>\<open>v[k]\<close> for a value that is not null or undefined: an own property of an object,
  undefined otherwise (the keys read by the renderer are never \<^verbatim>\<open>length\<close> or an index).
\<close>

definition get_prop :: "jsval \<Rightarrow> string \<Rightarrow> jsval" where
  "get_prop v k = (case v of JObj kvs \<Rightarrow> (case map_of kvs k of Some x \<Rightarrow> x | None \<Rightarrow> JUndef)
                        | _ \<Rightarrow> JUndef)"

text \<open>\<^verbatim>\<open>v?.[k]\<close>\<close>

definition opt_prop :: "jsval \<Rightarrow> string \<Rightarrow> jsval" where
  "opt_prop v k = (if nullish v then JUndef else get_prop v k)"

text \<open>\<^verbatim>\<open>o[k] = x\<close> on an association list: an existing key keeps its position.\<close>

fun set_key :: "obj \<Rightarrow> string \<Rightarrow> jsval \<Rightarrow> obj" where
  "set_key [] k x = [(k, x)]"
| "set_key ((k', y) # kvs) k x = (if k' = k then (k, x) # kvs else (k', y) # set_key kvs k x)"

definition has_key :: "obj \<Rightarrow> string \<Rightarrow> bool" where
  "has_key kvs k = (k \<in> set (map fst kvs))"

fun truthy :: "jsval \<Rightarrow> bool" where
  "truthy JUndef = False"
| "truthy JNull = False"
| "truthy (JBool b) = b"
| "truthy (JNum n) = (n \<noteq> NaN \<and> n \<noteq> Fin 0)"
| "truthy (JStr s) = (s \<noteq> [])"
| "truthy (JArr _) = True"
| "truthy (JObj _) = True"

fun join :: "string \<Rightarrow> string list \<Rightarrow> string" where
  "join sep [] = []"
| "join sep [s] = s"
| "join sep (s # t # ts) = s @ sep @ join sep (t # ts)"

subsection \<open>The host environment\<close>

text \<open>
  What the browser supplies is a parameter of the model: number and date formatting,
  conversion between numbers and strings, collation and the JSON parser; the rounding of
  an exact arithmetic result to a double (\<open>fp_round\<close>); the order that
  \<^verbatim>\<open>Array.prototype.sort\<close> gives to elements that its comparator does not order
  consistently (\<open>sort_choice\<close>); and what happens when a nested \<^verbatim>\<open>table-maker\<close>, created with
  \<^verbatim>\<open>document.createElement\<close>, is given its data: it renders at once, and it either returns
  or throws (\<open>nested_table\<close>).
\<close>

record nf_opts =
  nf_style :: string
  nf_currency :: string
  nf_minimumFractionDigits :: jsval
  nf_maximumFractionDigits :: jsval
  nf_currencyDisplay :: "string option"

record host =
  intl_format :: "string option \<Rightarrow> nf_opts \<Rightarrow> jsval \<Rightarrow> js_error + string"
  toLocaleString_enUS :: "num \<Rightarrow> jsval \<Rightarrow> js_error + string"
  toFixed :: "num \<Rightarrow> jsval \<Rightarrow> js_error + string"
  date_getTime :: "jsval \<Rightarrow> num"
  date_toISOString :: "num \<Rightarrow> string"
  string_to_number :: "string \<Rightarrow> num"
  number_to_string :: "num \<Rightarrow> string"
  localeCompare :: "string \<Rightarrow> string \<Rightarrow> int"
  localeCompare_numeric_base :: "string \<Rightarrow> string \<Rightarrow> int"
  json_parse :: "string \<Rightarrow> js_error + jsval"
  fp_round :: "rat \<Rightarrow> num"
  sort_choice :: "(obj \<Rightarrow> obj \<Rightarrow> num) \<Rightarrow> obj list \<Rightarrow> obj list"
  nested_table :: "jsval \<Rightarrow> js_error + unit"

text \<open>\<^verbatim>\<open>String(v)\<close>; an array joins its elements with a comma, null and undefined as empty.\<close>

fun to_str :: "host \<Rightarrow> jsval \<Rightarrow> string" where
  "to_str h JUndef = ''undefined''"
| "to_str h JNull = ''null''"
| "to_str h (JBool b) = (if b then ''true'' else ''false'')"
| "to_str h (JNum n) = number_to_string h n"
| "to_str h (JStr s) = s"
| "to_str h (JArr xs) = join '','' (map (\<lambda>x. if x = JUndef \<or> x = JNull then [] else to_str h x) xs)"
| "to_str h (JObj kvs) = ''[object Object]''"

text \<open>\<^verbatim>\<open>Number(v)\<close>\<close>

fun to_num :: "host \<Rightarrow> jsval \<Rightarrow> num" where
  "to_num h JUndef = NaN"
| "to_num h JNull = Fin 0"
| "to_num h (JBool b) = (if b then Fin 1 else Fin 0)"
| "to_num h (JNum n) = n"
| "to_num h (JStr s) = string_to_number h s"
| "to_num h (JArr xs) = string_to_number h (to_str h (JArr xs))"
| "to_num h (JObj kvs) = string_to_number h (to_str h (JObj kvs))"

text \<open>The binary \<^verbatim>\<open>+\<close>: concatenation as soon as one operand is a string, an array or an object.\<close>

fun stringy :: "jsval \<Rightarrow> bool" where
  "stringy (JStr _) = True"
| "stringy (JArr _) = True"
| "stringy (JObj _) = True"
| "stringy _ = False"

definition js_plus :: "host \<Rightarrow> jsval \<Rightarrow> jsval \<Rightarrow> jsval" where
  "js_plus h a b =
     (if stringy a \<or> stringy b then JStr (to_str h a @ to_str h b)
      else JNum (num_add (fp_round h) (to_num h a) (to_num h b)))"

text \<open>\<^verbatim>\<open>toUpperCase\<close> and \<^verbatim>\<open>toLowerCase\<close>, on the ASCII letters.\<close>

definition lower_letters :: string where
  "lower_letters = ''abcdefghijklmnopqrstuvwxyz''"

definition upper_letters :: string where
  "upper_letters = ''ABCDEFGHIJKLMNOPQRSTUVWXYZ''"

definition toUpperCase :: "string \<Rightarrow> string" where
  "toUpperCase s =
     map (\<lambda>c. case map_of (zip lower_letters upper_letters) c of Some u \<Rightarrow> u | None \<Rightarrow> c) s"

definition toLowerCase :: "string \<Rightarrow> string" where
  "toLowerCase s =
     map (\<lambda>c. case map_of (zip upper_letters lower_letters) c of Some u \<Rightarrow> u | None \<Rightarrow> c) s"

text \<open>Sequencing of computations that may throw.\<close>

definition bind_res :: "js_error + 'a \<Rightarrow> ('a \<Rightarrow> js_error + 'b) \<Rightarrow> js_error + 'b" where
  "bind_res r f = (case r of Inl e \<Rightarrow> Inl e | Inr x \<Rightarrow> f x)"

fun map_res :: "('a \<Rightarrow> js_error + 'b) \<Rightarrow> 'a list \<Rightarrow> js_error + 'b list" where
  "map_res f [] = Inr []"
| "map_res f (x # xs) =
     (case f x of Inl e \<Rightarrow> Inl e
      | Inr y \<Rightarrow> (case map_res f xs of Inl e \<Rightarrow> Inl e | Inr ys \<Rightarrow> Inr (y # ys)))"

section \<open>Constants\<close>

definition MONEY :: string where "MONEY = ''money''"
definition MONEY2 :: string where "MONEY2 = ''money_2''"
definition FLOAT :: string where "FLOAT = ''float''"
definition FLOAT5 :: string where "FLOAT5 = ''float_5''"
definition PERCENT :: string where "PERCENT = ''%''"
definition PERCENT1 :: string where "PERCENT1 = ''percent''"
definition DATE :: string where "DATE = ''date''"
definition TEXT :: string where "TEXT = ''text''"

definition DEFAULT_PRECISION :: jsval where "DEFAULT_PRECISION = JNum (Fin 0)"
definition DEFAULT_CURRENCY :: jsval where "DEFAULT_CURRENCY = JStr ''INR''"
definition DEFAULT_CSS_TYPE :: jsval where "DEFAULT_CSS_TYPE = JStr ''default''"

section \<open>Formatter\<close>

text \<open>
  \<^verbatim>\<open>Formatter.#formatCurrency\<close>: \<^verbatim>\<open>currency.toUpperCase()\<close> throws outside the \<^verbatim>\<open>try\<close> when the
  currency is not a string; a failure of the first formatter is caught and the second one
  is tried without \<^verbatim>\<open>currencyDisplay\<close>, its failure propagates.
\<close>

definition formatCurrency :: "host \<Rightarrow> jsval \<Rightarrow> jsval \<Rightarrow> jsval \<Rightarrow> bool \<Rightarrow> js_error + string" where
  "formatCurrency h amount precision currency useNarrow =
     (case currency of
        JStr c \<Rightarrow>
          (let cur = toUpperCase c;
               opts = \<lparr> nf_style = ''currency'', nf_currency = cur,
                        nf_minimumFractionDigits = precision,
                        nf_maximumFractionDigits = precision,
                        nf_currencyDisplay = (if useNarrow then Some ''narrowSymbol'' else None) \<rparr>
           in case intl_format h None opts amount of
                Inr s \<Rightarrow> Inr s
              | Inl _ \<Rightarrow>
                  intl_format h (if cur = ''USD'' then Some ''en-US'' else None)
                    (opts \<lparr> nf_currencyDisplay := None \<rparr>) amount)
      | _ \<Rightarrow> Inl TypeError)"

text \<open>A default parameter value replaces an argument that is undefined.\<close>

definition dflt :: "jsval \<Rightarrow> jsval \<Rightarrow> jsval" where
  "dflt a d = (if a = JUndef then d else a)"

definition formatMoney :: "host \<Rightarrow> jsval \<Rightarrow> jsval \<Rightarrow> jsval \<Rightarrow> js_error + string" where
  "formatMoney h amount precision currency =
     formatCurrency h amount (dflt precision DEFAULT_PRECISION) (dflt currency DEFAULT_CURRENCY) True"

text \<open>\<^verbatim>\<open>xs[i]\<close> for an integer \<^verbatim>\<open>i\<close>: undefined out of range.\<close>

definition at_index :: "jsval list \<Rightarrow> int \<Rightarrow> jsval" where
  "at_index xs i = (if 0 \<le> i \<and> i < int (length xs) then xs ! nat i else JUndef)"

text \<open>
  \<^verbatim>\<open>Formatter.formatMoney2\<close>. Both call sites pass arrays for the three arguments (each is
  guarded by \<^verbatim>\<open>Array.isArray\<close>), so they are lists here.
\<close>

definition formatMoney2 :: "host \<Rightarrow> jsval list \<Rightarrow> jsval list \<Rightarrow> jsval list \<Rightarrow> js_error + string" where
  "formatMoney2 h amounts precisions currencies =
     bind_res
       (map_res (\<lambda>(amt, idx).
            let cur = at_index currencies (min (int idx) (int (length currencies) - 1));
                prec = at_index precisions (min (int idx) (int (length precisions) - 1))
            in formatMoney h amt prec cur)
          (zip amounts [0 ..< length amounts]))
       (\<lambda>parts. Inr (join ''<br>'' parts))"

definition formatNumber :: "host \<Rightarrow> jsval \<Rightarrow> jsval \<Rightarrow> js_error + string" where
  "formatNumber h val precision =
     toLocaleString_enUS h (to_num h val) (dflt precision DEFAULT_PRECISION)"

definition formatPercent :: "host \<Rightarrow> jsval \<Rightarrow> jsval \<Rightarrow> js_error + string" where
  "formatPercent h val precision =
     bind_res (toFixed h (num_scale (fp_round h) 100 (to_num h val)) (dflt precision DEFAULT_PRECISION))
       (\<lambda>s. Inr (s @ ''%''))"

definition formatDate :: "host \<Rightarrow> jsval \<Rightarrow> string" where
  "formatDate h val =
     (let d = date_getTime h val
      in if is_nan d then [] else takeWhile (\<lambda>c. c \<noteq> CHR ''T'') (date_toISOString h d))"

section \<open>TableMaker: derivation of the display cells\<close>

definition DETAIL_KEYS :: "string list" where
  "DETAIL_KEYS = [''_DETAILS_TABLE_'', ''_DETAILS_OTHER_'']"

text \<open>\<^verbatim>\<open>Array.isArray(v) ? v : d\<close>\<close>

definition array_or :: "jsval \<Rightarrow> jsval list \<Rightarrow> jsval list" where
  "array_or v d = (case v of JArr xs \<Rightarrow> xs | _ \<Rightarrow> d)"

definition str_res :: "js_error + string \<Rightarrow> js_error + jsval" where
  "str_res r = bind_res r (\<lambda>s. Inr (JStr s))"

text \<open>
  The \<^verbatim>\<open>switch (type)\<close> of \<^verbatim>\<open>createCellDisplayValues\<close>: the display value of one cell.
  The money case calls \<^verbatim>\<open>formatMoney(raw, precision)\<close> with two arguments.
\<close>

definition cell_disp :: "host \<Rightarrow> jsval \<Rightarrow> jsval \<Rightarrow> jsval \<Rightarrow> jsval \<Rightarrow> js_error + jsval" where
  "cell_disp h colInfo type precision raw =
     (if type = JStr MONEY2 then
        (let currencies = array_or (get_prop colInfo ''currency'') [DEFAULT_CURRENCY];
             precisions = array_or (get_prop colInfo ''precision'') [precision];
             amounts = array_or raw []
         in str_res (formatMoney2 h amounts precisions currencies))
      else if type = JStr MONEY then str_res (formatMoney h raw precision JUndef)
      else if type = JStr FLOAT then str_res (formatNumber h raw precision)
      else if type = JStr FLOAT5 then
        str_res (formatNumber h (JNum (num_scale (fp_round h) (1 / 100000) (to_num h raw))) precision)
      else if type = JStr PERCENT \<or> type = JStr PERCENT1 then
        str_res (formatPercent h raw precision)
      else if type = JStr DATE then Inr (JStr (formatDate h raw))
      else Inr raw)"

definition mk_cell :: "jsval \<Rightarrow> jsval \<Rightarrow> jsval \<Rightarrow> jsval" where
  "mk_cell type raw disp = JObj [(''type'', type), (''value'', raw), (''disp'', disp)]"

text \<open>The body of the loop over \<^verbatim>\<open>Object.entries(row)\<close> for one column of one row.\<close>

definition derive_cell :: "host \<Rightarrow> obj \<Rightarrow> string \<Rightarrow> jsval \<Rightarrow> js_error + jsval" where
  "derive_cell h cols col raw =
     (let colInfo = nc (get_prop (JObj cols) col) (JObj []);
          type = nc (get_prop colInfo ''type'') (JStr TEXT);
          precision = nc (get_prop colInfo ''precision'') DEFAULT_PRECISION
      in bind_res (cell_disp h colInfo type precision raw) (\<lambda>d. Inr (mk_cell type raw d)))"

text \<open>
  One row: every entry except the two detail keys is replaced by its cell, in the order of
  the entries; the first formatter that throws ends the derivation.
\<close>

definition derive_row :: "host \<Rightarrow> obj \<Rightarrow> obj \<Rightarrow> js_error + obj" where
  "derive_row h cols row =
     map_res (\<lambda>(col, raw).
        if col \<in> set DETAIL_KEYS then Inr (col, raw)
        else bind_res (derive_cell h cols col raw) (\<lambda>c. Inr (col, c))) row"

text \<open>\<^verbatim>\<open>TableMaker.createCellDisplayValues\<close>: the rows of the result (\<^verbatim>\<open>cols\<close> is passed on as it is).\<close>

definition createCellDisplayValues :: "host \<Rightarrow> obj \<Rightarrow> obj list \<Rightarrow> js_error + obj list" where
  "createCellDisplayValues h cols rows = map_res (derive_row h cols) rows"

section \<open>Aggregates\<close>

text \<open>
  The element-wise sum of the money_2 branch: \<^verbatim>\<open>acc[i] = (acc[i] ?? 0) + Number(num)\<close> for
  every index of the row's array, the accumulator growing as needed.
\<close>

fun add_into :: "(rat \<Rightarrow> num) \<Rightarrow> num list \<Rightarrow> num list \<Rightarrow> num list" where
  "add_into rnd acc [] = acc"
| "add_into rnd [] (v # vs) = num_add rnd (Fin 0) v # add_into rnd [] vs"
| "add_into rnd (a # as) (v # vs) = num_add rnd a v # add_into rnd as vs"

text \<open>
  \<^verbatim>\<open>arr[col].value.forEach(...)\<close> inside the \<^verbatim>\<open>reduce\<close>: reading \<^verbatim>\<open>value\<close> of a missing cell and
  calling \<^verbatim>\<open>forEach\<close> on a value that is not an array both throw a TypeError.
\<close>

fun sum_money2 :: "host \<Rightarrow> string \<Rightarrow> num list \<Rightarrow> obj list \<Rightarrow> js_error + num list" where
  "sum_money2 h col acc [] = Inr acc"
| "sum_money2 h col acc (arr # rest) =
     (let cell = get_prop (JObj arr) col
      in if nullish cell then Inl TypeError
         else (case get_prop cell ''value'' of
                 JArr vs \<Rightarrow> sum_money2 h col (add_into (fp_round h) acc (map (to_num h) vs)) rest
               | _ \<Rightarrow> Inl TypeError))"

text \<open>\<^verbatim>\<open>rows.reduce((acc, r) => acc + (r[col] ? r[col].value : 0), 0)\<close>\<close>

definition sum_plain :: "host \<Rightarrow> string \<Rightarrow> obj list \<Rightarrow> jsval" where
  "sum_plain h col rows =
     foldl (\<lambda>acc r. js_plus h acc
              (let cell = get_prop (JObj r) col
               in if truthy cell then get_prop cell ''value'' else JNum (Fin 0)))
       (JNum (Fin 0)) rows"

text \<open>The first \<^verbatim>\<open>switch\<close> of \<^verbatim>\<open>calcGroupAggregates\<close>: the aggregate value.\<close>

definition agg_value :: "host \<Rightarrow> jsval \<Rightarrow> string \<Rightarrow> jsval \<Rightarrow> obj list \<Rightarrow> js_error + jsval" where
  "agg_value h colInfo col colType rows =
     (if get_prop colInfo ''aggregate'' = JStr ''sum'' then
        (if colType = JStr MONEY2 then
           bind_res (sum_money2 h col [] rows) (\<lambda>acc. Inr (JArr (map JNum acc)))
         else Inr (sum_plain h col rows))
      else Inr (get_prop colInfo ''aggregate''))"

text \<open>
  The second \<^verbatim>\<open>switch\<close>: the pair of the stored value and its display string. The money case
  calls \<^verbatim>\<open>formatMoney(aggVal, precision)\<close> with two arguments.
\<close>

definition agg_format :: "host \<Rightarrow> jsval \<Rightarrow> jsval \<Rightarrow> jsval \<Rightarrow> jsval \<Rightarrow> js_error + jsval \<times> jsval" where
  "agg_format h colInfo colType precision aggVal =
     (if colType = JStr MONEY then
        bind_res (str_res (formatMoney h aggVal precision JUndef)) (\<lambda>d. Inr (aggVal, d))
      else if colType = JStr MONEY2 then
        (let currencies = array_or (get_prop colInfo ''currency'') [DEFAULT_CURRENCY];
             precisions = array_or (get_prop colInfo ''precision'') [precision];
             amounts = array_or aggVal []
         in bind_res (str_res (formatMoney2 h amounts precisions currencies))
              (\<lambda>d. Inr (JArr amounts, d)))
      else if colType = JStr FLOAT then
        bind_res (str_res (formatNumber h aggVal precision)) (\<lambda>d. Inr (aggVal, d))
      else if colType = JStr FLOAT5 then
        bind_res (str_res (formatNumber h (JNum (num_scale (fp_round h) (1 / 100000) (to_num h aggVal))) precision))
          (\<lambda>d. Inr (aggVal, d))
      else if colType = JStr PERCENT \<or> colType = JStr PERCENT1 then
        bind_res (str_res (formatPercent h aggVal precision)) (\<lambda>d. Inr (aggVal, d))
      else Inr (aggVal, aggVal))"

text \<open>The body of \<^verbatim>\<open>aggregateCols.forEach\<close> for one column: its key and its entry of the result.\<close>

definition agg_entry :: "host \<Rightarrow> obj list \<Rightarrow> jsval \<Rightarrow> js_error + string \<times> jsval" where
  "agg_entry h rows colInfo =
     (let col = to_str h (get_prop colInfo ''col'');
          colType = nc (get_prop colInfo ''type'') (JStr TEXT);
          precision = nc (get_prop colInfo ''precision'') DEFAULT_PRECISION
      in bind_res (agg_value h colInfo col colType rows) (\<lambda>aggVal.
         bind_res (agg_format h colInfo colType precision aggVal) (\<lambda>(v, d).
         Inr (col, JObj [(''value'', v), (''disp'', d)]))))"

text \<open>\<^verbatim>\<open>TableMakerComponent.calcGroupAggregates\<close>: the result object, built key by key.\<close>

definition calcGroupAggregates :: "host \<Rightarrow> jsval list \<Rightarrow> obj list \<Rightarrow> js_error + obj" where
  "calcGroupAggregates h aggregateCols rows =
     bind_res (map_res (agg_entry h rows) aggregateCols)
       (\<lambda>entries. Inr (foldl (\<lambda>result (col, e). set_key result col e) [] entries))"

section \<open>Deep copy, sorting and grouping\<close>

text \<open>
  \<^verbatim>\<open>JSON.parse(JSON.stringify(v))\<close> for a value that is not undefined: a property whose value
  is undefined is dropped, an undefined array element and a number that is not finite
  become null.
\<close>

fun json_clone :: "jsval \<Rightarrow> jsval" where
  "json_clone (JArr xs) = JArr (map json_clone xs)"
| "json_clone (JObj kvs) =
     JObj (map (\<lambda>kv. (fst kv, json_clone (snd kv))) (filter (\<lambda>kv. snd kv \<noteq> JUndef) kvs))"
| "json_clone (JNum n) = (if is_finite n then JNum n else JNull)"
| "json_clone JUndef = JNull"
| "json_clone v = v"

text \<open>
  Stable insertion with a comparator that gives a sign: an element moves in front of the
  first element it does not compare greater than.
\<close>

fun js_insert :: "('a \<Rightarrow> 'a \<Rightarrow> int) \<Rightarrow> 'a \<Rightarrow> 'a list \<Rightarrow> 'a list" where
  "js_insert c x [] = [x]"
| "js_insert c x (y # ys) = (if c x y \<le> 0 then x # y # ys else y # js_insert c x ys)"

definition js_sort :: "('a \<Rightarrow> 'a \<Rightarrow> int) \<Rightarrow> 'a list \<Rightarrow> 'a list" where
  "js_sort c xs = foldr (js_insert c) xs []"

text \<open>The sign that \<^verbatim>\<open>sort\<close> reads off a comparator's result: NaN counts as zero.\<close>

fun sort_sign :: "num \<Rightarrow> int" where
  "sort_sign (Fin q) = (if q < 0 then -1 else if 0 < q then 1 else 0)"
| "sort_sign PInf = 1"
| "sort_sign NInf = -1"
| "sort_sign NaN = 0"

text \<open>
  A consistent comparator for the elements of a list, as the language specification
  defines it: the result is never NaN; every element compares equal to itself; comparing
  equal is symmetric and transitive; comparing less is transitive and comparing greater is
  transitive.
\<close>

definition consistent :: "('a \<Rightarrow> 'a \<Rightarrow> num) \<Rightarrow> 'a list \<Rightarrow> bool" where
  "consistent c xs =
     list_all (\<lambda>a.
       sort_sign (c a a) = 0
       \<and> list_all (\<lambda>b.
             c a b \<noteq> NaN
             \<and> (sort_sign (c a b) = 0 \<longrightarrow> sort_sign (c b a) = 0)
             \<and> list_all (\<lambda>d.
                   (sort_sign (c a b) = 0 \<and> sort_sign (c b d) = 0 \<longrightarrow> sort_sign (c a d) = 0)
                   \<and> (sort_sign (c a b) < 0 \<and> sort_sign (c b d) < 0 \<longrightarrow> sort_sign (c a d) < 0)
                   \<and> (0 < sort_sign (c a b) \<and> 0 < sort_sign (c b d) \<longrightarrow> 0 < sort_sign (c a d))) xs) xs) xs"

text \<open>
  \<^verbatim>\<open>Array.prototype.sort(comparator)\<close> on an array of rows. With a consistent comparator the
  result is the stable sorted order, which stable insertion computes. Otherwise the order
  is left to the implementation: it is the order the host chooses for the same elements
  (a choice that is not an order of these elements is not taken).
\<close>

definition array_sort :: "host \<Rightarrow> (obj \<Rightarrow> obj \<Rightarrow> num) \<Rightarrow> obj list \<Rightarrow> obj list" where
  "array_sort h c xs =
     (if consistent c xs then js_sort (\<lambda>a b. sort_sign (c a b)) xs
      else if mset (sort_choice h c xs) = mset xs then sort_choice h c xs
      else xs)"

text \<open>
  \<^verbatim>\<open>Object.groupBy(items, f)\<close> followed by \<^verbatim>\<open>Object.entries\<close>: a group per key with its items in
  their order, the groups in the order of own property keys: keys that are array indices
  first, ascending, then the others in the order of their first item.
\<close>

fun group_add :: "string \<Rightarrow> 'a \<Rightarrow> (string \<times> 'a list) list \<Rightarrow> (string \<times> 'a list) list" where
  "group_add k x [] = [(k, [x])]"
| "group_add k x ((k', xs) # gs) =
     (if k' = k then (k', xs @ [x]) # gs else (k', xs) # group_add k x gs)"

definition groupBy :: "('a \<Rightarrow> string) \<Rightarrow> 'a list \<Rightarrow> (string \<times> 'a list) list" where
  "groupBy f xs = foldl (\<lambda>gs x. group_add (f x) x gs) [] xs"

definition digit_chars :: string where
  "digit_chars = ''0123456789''"

definition dec_value :: "string \<Rightarrow> nat" where
  "dec_value s = foldl (\<lambda>n c. 10 * n + length (takeWhile (\<lambda>d. d \<noteq> c) digit_chars)) 0 s"

definition is_array_index :: "string \<Rightarrow> bool" where
  "is_array_index s =
     (s \<noteq> [] \<and> list_all (\<lambda>c. c \<in> set digit_chars) s \<and> (s = ''0'' \<or> hd s \<noteq> CHR ''0'')
      \<and> dec_value s < 2 ^ 32 - 1)"

definition own_entries :: "(string \<times> 'a) list \<Rightarrow> (string \<times> 'a) list" where
  "own_entries kvs =
     sort_key (\<lambda>kv. dec_value (fst kv)) (filter (\<lambda>kv. is_array_index (fst kv)) kvs)
     @ filter (\<lambda>kv. \<not> is_array_index (fst kv)) kvs"

section \<open>Sorting by a column\<close>

datatype sort_key = KNum num | KStr string

text \<open>\<^verbatim>\<open>normalize\<close> of \<^verbatim>\<open>#sortBy\<close>; \<open>type\<close> is the lower-cased type of the column.\<close>

definition normalize :: "host \<Rightarrow> string \<Rightarrow> jsval \<Rightarrow> sort_key" where
  "normalize h type v =
     (if type = MONEY2 \<and> isArray v then
        (let first = (case v of JArr (x # _) \<Rightarrow> to_num h x | _ \<Rightarrow> Fin 0)
         in KNum (if is_finite first then first else Fin 0))
      else if type = DATE then
        (let d = date_getTime h v in KNum (if is_nan d then NInf else d))
      else
        (let n = to_num h v
         in if \<not> is_nan n then KNum n else KStr (if nullish v then [] else to_str h v)))"

text \<open>The operand of \<^verbatim>\<open><\<close> and \<^verbatim>\<open>>\<close> as a number, when the two keys are not both strings.\<close>

fun key_num :: "host \<Rightarrow> sort_key \<Rightarrow> num" where
  "key_num h (KNum n) = n"
| "key_num h (KStr s) = string_to_number h s"

definition comparator :: "host \<Rightarrow> string \<Rightarrow> string \<Rightarrow> obj \<Rightarrow> obj \<Rightarrow> int" where
  "comparator h type columnKey a b =
     (let na = normalize h type (get_prop (JObj a) columnKey);
          nb = normalize h type (get_prop (JObj b) columnKey)
      in case (na, nb) of
           (KStr s, KStr t) \<Rightarrow> localeCompare_numeric_base h s t
         | _ \<Rightarrow> if num_lt (key_num h na) (key_num h nb) then -1
                else if num_lt (key_num h nb) (key_num h na) then 1 else 0)"

text \<open>The lower-cased type of the column: \<^verbatim>\<open>(colDef.type ?? '').toString().toLowerCase()\<close>.\<close>

definition sort_type :: "host \<Rightarrow> jsval \<Rightarrow> string \<Rightarrow> string" where
  "sort_type h cols columnKey =
     (let colDef = nc (opt_prop cols columnKey) (JObj [])
      in toLowerCase (to_str h (nc (get_prop colDef ''type'') (JStr []))))"

text \<open>The \<^verbatim>\<open>rows.sort(...)\<close> line of \<^verbatim>\<open>#sortBy\<close>.\<close>

definition sort_rows :: "host \<Rightarrow> jsval \<Rightarrow> string \<Rightarrow> bool \<Rightarrow> obj list \<Rightarrow> obj list" where
  "sort_rows h cols columnKey asc rows =
     array_sort h
       (\<lambda>a b. Fin (of_int (if asc then comparator h (sort_type h cols columnKey) columnKey a b
                              else - comparator h (sort_type h cols columnKey) columnKey a b))) rows"

section \<open>Grouping\<close>

text \<open>
  The normalisation of \<^verbatim>\<open>group_by\<close> in \<^verbatim>\<open>#buildBody\<close>: a column and a direction per entry;
  \<^verbatim>\<open>dir.toLowerCase()\<close> throws for a direction that is truthy and not a string.
\<close>

definition group_entry :: "jsval \<Rightarrow> js_error + jsval \<times> string" where
  "group_entry entry =
     (case entry of
        JArr xs \<Rightarrow>
          (let col = at_index xs 0; dir = at_index xs 1
           in if \<not> truthy dir then Inr (col, ''asc'')
              else (case dir of
                      JStr d \<Rightarrow> Inr (col, if toLowerCase d = ''desc'' then ''desc'' else ''asc'')
                    | _ \<Rightarrow> Inl TypeError))
      | _ \<Rightarrow> Inr (entry, ''asc''))"

text \<open>\<^verbatim>\<open>row[col]?.value\<close>, the column name coerced to a property key.\<close>

definition cell_value :: "host \<Rightarrow> obj \<Rightarrow> jsval \<Rightarrow> jsval" where
  "cell_value h row col = opt_prop (get_prop (JObj row) (to_str h col)) ''value''"

text \<open>The comparator of the sort in \<^verbatim>\<open>#buildBody\<close>: the first level that differs decides.\<close>

fun group_cmp :: "host \<Rightarrow> (jsval \<times> string) list \<Rightarrow> obj \<Rightarrow> obj \<Rightarrow> num" where
  "group_cmp h [] a b = Fin 0"
| "group_cmp h ((col, dir) # levels) a b =
     (let av = nc (cell_value h a col) (JStr []);
          bv = nc (cell_value h b col) (JStr []);
          cmp = (case (av, bv) of
                   (JNum x, JNum y) \<Rightarrow> num_sub (fp_round h) x y
                 | _ \<Rightarrow> Fin (of_int (localeCompare h (to_str h av) (to_str h bv))))
      in if cmp \<noteq> Fin 0 then (if dir = ''desc'' then num_neg cmp else cmp)
         else group_cmp h levels a b)"

definition group_sort :: "host \<Rightarrow> (jsval \<times> string) list \<Rightarrow> obj list \<Rightarrow> obj list" where
  "group_sort h levels rows = array_sort h (group_cmp h levels) rows"

text \<open>The composite key: \<^verbatim>\<open>groupColNames.map(col => row[col]?.value).join('|')\<close>.\<close>

definition group_key :: "host \<Rightarrow> jsval list \<Rightarrow> obj \<Rightarrow> string" where
  "group_key h names row =
     join ''|'' (map (\<lambda>col. let v = cell_value h row col
                            in if nullish v then [] else to_str h v) names)"

definition group_rows :: "host \<Rightarrow> (jsval \<times> string) list \<Rightarrow> obj list \<Rightarrow> (string \<times> obj list) list" where
  "group_rows h levels rows =
     own_entries (groupBy (group_key h (map fst levels)) (group_sort h levels rows))"

section \<open>The table-maker component\<close>

text \<open>
  The private fields of \<^verbatim>\<open>TableMakerComponent\<close>. \<^verbatim>\<open>#tableData\<close> is the object the caller
  assigned (the same object, not a copy), so a change of \<open>tableData\<close> is a change of the
  caller's object. \<^verbatim>\<open>#style\<close> is either an object of its own or, after
  \<^verbatim>\<open>this.#style = this.#tableData.style\<close>, the object stored under \<^verbatim>\<open>style\<close> in the data:
  then a write to the style is a write into the data.

  The shadow root holds what the builders were given rather than DOM nodes: the theme, the
  header cells, the body rows or groups and the footer aggregates. Row classes, row
  buttons, the caption and the style sheet text are not represented.
\<close>

datatype style_ref = DataStyle | OwnStyle jsval

datatype diag = InvalidJSON string string | ParseError js_error

datatype tr =
    DataTr "jsval list" bool
  | DetailTr bool jsval jsval

record group_view =
  g_label :: string
  g_header_is_subtotal :: bool
  g_members_hidden :: bool
  g_members :: "tr list"
  g_subtotal :: "(string \<times> jsval) list option"

datatype tbody = FlatBody "tr list" | GroupedBody "group_view list"

datatype table_view =
    StandardTable "(string \<times> jsval \<times> jsval \<times> bool option) list" tbody
      "(string \<times> jsval) list option"
  | TransposedTable jsval "jsval list" "(jsval \<times> jsval list) list"

record comp =
  tableData :: jsval
  style_ref :: style_ref
  aggregateColumns :: "jsval list"
  transpose :: bool
  batchMode :: bool
  sortedColumn :: "jsval \<times> bool"
  shadow :: "(string \<times> table_view) option"
  console :: "diag list"

definition new_comp :: comp where
  "new_comp =
     \<lparr> tableData = JObj [(''style'', JObj [(''cssType'', DEFAULT_CSS_TYPE)])],
       style_ref = OwnStyle (JObj [(''cssType'', DEFAULT_CSS_TYPE)]),
       aggregateColumns = [], transpose = False, batchMode = False,
       sortedColumn = (JNull, True), shadow = None, console = [] \<rparr>"

text \<open>A step of a method: it may throw, and it leaves a state behind either way.\<close>

type_synonym 'a eff = "comp \<Rightarrow> (js_error + 'a) \<times> comp"

definition ret :: "'a \<Rightarrow> 'a eff" where
  "ret x st = (Inr x, st)"

definition lift :: "js_error + 'a \<Rightarrow> 'a eff" where
  "lift r st = (r, st)"

definition andThen :: "'a eff \<Rightarrow> ('a \<Rightarrow> 'b eff) \<Rightarrow> 'b eff" where
  "andThen m f st = (case m st of (Inl e, st') \<Rightarrow> (Inl e, st') | (Inr x, st') \<Rightarrow> f x st')"

subsection \<open>Reading and writing the style\<close>

definition cur_style :: "comp \<Rightarrow> jsval" where
  "cur_style st = (case style_ref st of DataStyle \<Rightarrow> get_prop (tableData st) ''style''
                                      | OwnStyle s \<Rightarrow> s)"

definition put_style :: "jsval \<Rightarrow> comp \<Rightarrow> comp" where
  "put_style s st =
     (case style_ref st of
        OwnStyle _ \<Rightarrow> st \<lparr> style_ref := OwnStyle s \<rparr>
      | DataStyle \<Rightarrow>
          (case tableData st of
             JObj kvs \<Rightarrow> st \<lparr> tableData := JObj (set_key kvs ''style'' s) \<rparr>
           | _ \<Rightarrow> st))"

text \<open>\<^verbatim>\<open>this.#style.k\<close>\<close>

definition style_read :: "string \<Rightarrow> jsval eff" where
  "style_read k st =
     (if nullish (cur_style st) then (Inl TypeError, st) else (Inr (get_prop (cur_style st) k), st))"

text \<open>\<^verbatim>\<open>this.#style.k = x\<close>, in strict mode: a write to a primitive throws.\<close>

definition style_write :: "string \<Rightarrow> jsval \<Rightarrow> unit eff" where
  "style_write k x st =
     (case cur_style st of
        JObj kvs \<Rightarrow> (Inr (), put_style (JObj (set_key kvs k x)) st)
      | JArr _ \<Rightarrow> (Inl Unmodelled, st)
      | _ \<Rightarrow> (Inl TypeError, st))"

text \<open>\<^verbatim>\<open>this.#style.k ??= d\<close>\<close>

definition style_default :: "string \<Rightarrow> jsval \<Rightarrow> unit eff" where
  "style_default k d = andThen (style_read k) (\<lambda>v. if nullish v then style_write k d else ret ())"

subsection \<open>Helpers of the render\<close>

text \<open>The rows of the data as a list of objects; a method call on a value that is not an array throws.\<close>

definition the_obj :: "jsval \<Rightarrow> obj" where
  "the_obj v = (case v of JObj kvs \<Rightarrow> kvs | _ \<Rightarrow> [])"

definition is_obj :: "jsval \<Rightarrow> bool" where
  "is_obj v = (case v of JObj _ \<Rightarrow> True | _ \<Rightarrow> False)"

definition as_rows :: "jsval \<Rightarrow> js_error + obj list" where
  "as_rows v =
     (case v of
        JArr xs \<Rightarrow> if list_all is_obj xs then Inr (map the_obj xs) else Inl Unmodelled
      | _ \<Rightarrow> Inl TypeError)"

text \<open>\<^verbatim>\<open>Object.entries(v)\<close>\<close>

definition obj_entries :: "jsval \<Rightarrow> js_error + obj" where
  "obj_entries v =
     (case v of
        JObj kvs \<Rightarrow> Inr kvs
      | JUndef \<Rightarrow> Inl TypeError
      | JNull \<Rightarrow> Inl TypeError
      | JStr s \<Rightarrow> if s = [] then Inr [] else Inl Unmodelled
      | JArr xs \<Rightarrow> if xs = [] then Inr [] else Inl Unmodelled
      | _ \<Rightarrow> Inr [])"

definition hasDetail :: "obj \<Rightarrow> bool" where
  "hasDetail r =
     (truthy (get_prop (JObj r) ''_DETAILS_TABLE_'') \<or> truthy (get_prop (JObj r) ''_DETAILS_OTHER_''))"

definition hasDetailRows :: "obj list \<Rightarrow> bool" where
  "hasDetailRows rows = list_ex hasDetail rows"

text \<open>\<^verbatim>\<open>this.#style.aggregateCols[col] = x\<close>\<close>

definition agg_put :: "string \<Rightarrow> jsval \<Rightarrow> unit eff" where
  "agg_put col x =
     andThen (style_read ''aggregateCols'') (\<lambda>ac.
       case ac of
         JObj kvs \<Rightarrow> style_write ''aggregateCols'' (JObj (set_key kvs col x))
       | _ \<Rightarrow> lift (Inl Unmodelled))"

text \<open>The loop over the columns that fills \<^verbatim>\<open>aggregateCols\<close>; \<^verbatim>\<open>in\<close> throws on a primitive.\<close>

fun collect_aggs :: "obj \<Rightarrow> unit eff" where
  "collect_aggs [] = ret ()"
| "collect_aggs ((col, colInfo) # rest) =
     andThen
       (case colInfo of
          JObj kvs \<Rightarrow> if has_key kvs ''aggregate'' then agg_put col (get_prop colInfo ''aggregate'')
                      else ret ()
        | JArr _ \<Rightarrow> ret ()
        | _ \<Rightarrow> lift (Inl TypeError))
       (\<lambda>_. collect_aggs rest)"

definition in_cols :: "jsval \<Rightarrow> string \<Rightarrow> js_error + bool" where
  "in_cols cols col =
     (case cols of JObj kvs \<Rightarrow> Inr (has_key kvs col) | JArr _ \<Rightarrow> Inl Unmodelled | _ \<Rightarrow> Inl TypeError)"

definition agg_col_of :: "jsval \<Rightarrow> string \<times> jsval \<Rightarrow> js_error + jsval" where
  "agg_col_of cols e =
     (let ci = get_prop cols (fst e)
      in if nullish ci then Inl TypeError
         else Inr (JObj [(''col'', JStr (fst e)),
                         (''type'', nc (get_prop ci ''type'') (JStr TEXT)),
                         (''precision'', nc (get_prop ci ''precision'') DEFAULT_PRECISION),
                         (''aggregate'', snd e)]))"

text \<open>\<^verbatim>\<open>#createAggregateColumnArray\<close>\<close>

definition createAggregateColumnArray :: "unit eff" where
  "createAggregateColumnArray =
     andThen (style_read ''aggregateCols'') (\<lambda>ac.
     andThen (if truthy ac then ret ()
              else andThen (style_write ''aggregateCols'' (JObj [])) (\<lambda>_.
                   andThen (\<lambda>st. lift (obj_entries (get_prop (tableData st) ''cols'')) st)
                     collect_aggs)) (\<lambda>_.
     andThen (style_read ''aggregateCols'') (\<lambda>ac'.
     (\<lambda>st.
        (let cols = get_prop (tableData st) ''cols''
         in case bind_res (obj_entries ac') (\<lambda>es.
                 bind_res (map_res (\<lambda>e. in_cols cols (fst e)) es) (\<lambda>flags.
                 map_res (agg_col_of cols) (map fst (filter snd (zip es flags))))) of
              Inl e \<Rightarrow> (Inl e, st)
            | Inr acs \<Rightarrow> (Inr (), st \<lparr> aggregateColumns := acs \<rparr>))))))"

text \<open>\<^verbatim>\<open>#filterVisibleColumns\<close>\<close>

definition group_col_names :: "jsval \<Rightarrow> jsval list" where
  "group_col_names group_by =
     (case group_by of
        JArr gs \<Rightarrow> map (\<lambda>g. case g of JArr xs \<Rightarrow> at_index xs 0 | _ \<Rightarrow> g) gs
      | _ \<Rightarrow> [])"

definition visible_entry :: "jsval list \<Rightarrow> string \<times> jsval \<Rightarrow> js_error + bool" where
  "visible_entry groupCols e =
     (if nullish (snd e) then Inl TypeError
      else Inr (JStr (fst e) \<notin> set groupCols \<and> truthy (nc (get_prop (snd e) ''show'') (JBool True))))"

definition filterVisibleColumns :: "jsval \<Rightarrow> jsval \<Rightarrow> js_error + obj" where
  "filterVisibleColumns style allCols =
     bind_res (obj_entries allCols) (\<lambda>es.
     bind_res (map_res (visible_entry (group_col_names (get_prop style ''group_by''))) es) (\<lambda>flags.
     Inr (map fst (filter snd (zip es flags)))))"

text \<open>
  The prepared data of both builders: the display cells of a deep copy of the rows, over
  the visible columns.
\<close>

definition prepare :: "host \<Rightarrow> comp \<Rightarrow> js_error + obj \<times> obj list" where
  "prepare h st =
     bind_res (if get_prop (tableData st) ''rows'' = JUndef then Inl SyntaxError
               else as_rows (json_clone (get_prop (tableData st) ''rows''))) (\<lambda>rows.
     bind_res (filterVisibleColumns (cur_style st) (get_prop (tableData st) ''cols'')) (\<lambda>cols.
     bind_res (createCellDisplayValues h cols rows) (\<lambda>rows'. Inr (cols, rows'))))"

text \<open>\<^verbatim>\<open>#buildHeader\<close>: key, type, label and sort arrow of each header cell.\<close>

definition buildHeader :: "comp \<Rightarrow> obj \<Rightarrow> (string \<times> jsval \<times> jsval \<times> bool option) list" where
  "buildHeader st cols =
     map (\<lambda>(col, info).
        (col, nc (get_prop info ''type'') (JStr TEXT),
         nc (get_prop info ''disp'') (nc (get_prop info ''displayName'') (JStr col)),
         if fst (sortedColumn st) = JStr col then Some (snd (sortedColumn st)) else None)) cols"

text \<open>
  \<^verbatim>\<open>#buildDataRow\<close> and \<^verbatim>\<open>#buildDetailRow\<close>: a data row carries its cells and whether it has a
  toggle button; a detail row starts hidden and is built with its content. The nested
  \<^verbatim>\<open>table-maker\<close> is given its data at once: it renders then, and what it throws ends the
  building of the row. The detail row holds the nested data and the other payload; the
  nested element's own shadow tree and console messages are not represented.
\<close>

definition buildDataRow :: "obj \<Rightarrow> obj \<Rightarrow> tr" where
  "buildDataRow row cols =
     DataTr (map (\<lambda>col. nc (get_prop (JObj row) col) (mk_cell (JStr TEXT) (JStr []) (JStr [])))
               (map fst cols))
            (hasDetail row)"

definition buildDetailRow :: "host \<Rightarrow> obj \<Rightarrow> js_error + tr" where
  "buildDetailRow h row =
     (let nested = get_prop (JObj row) ''_DETAILS_TABLE_'';
          other = get_prop (JObj row) ''_DETAILS_OTHER_''
      in bind_res (if truthy nested then nested_table h nested else Inr ()) (\<lambda>_.
         Inr (DetailTr True (if truthy nested then nested else JUndef)
                (if truthy other then other else JUndef))))"

text \<open>
  The loop over the rows of a body (in \<^verbatim>\<open>#buildBody\<close> and, with the detail row written out
  again, in \<^verbatim>\<open>#groupTbody\<close>): the data row of each row, followed by its detail row if it has
  detail content.
\<close>

definition row_trs :: "host \<Rightarrow> obj \<Rightarrow> obj list \<Rightarrow> js_error + tr list" where
  "row_trs h cols rows =
     bind_res
       (map_res (\<lambda>row. if hasDetail row
                       then bind_res (buildDetailRow h row) (\<lambda>d. Inr [buildDataRow row cols, d])
                       else Inr [buildDataRow row cols]) rows)
       (\<lambda>trs. Inr (concat trs))"

text \<open>\<^verbatim>\<open>#subtotalRow\<close>: the aggregate entry of every visible column that has one.\<close>

definition subtotalRow :: "host \<Rightarrow> comp \<Rightarrow> obj \<Rightarrow> obj list \<Rightarrow> string \<Rightarrow> js_error + (string \<times> jsval) list" where
  "subtotalRow h st colsToShow groupRows groupLabel =
     (let newAggCols =
            map (\<lambda>aggCol.
                   if groupLabel \<noteq> [] \<and> get_prop aggCol ''aggregate'' = JStr ''Total''
                   then (case aggCol of JObj kvs \<Rightarrow> JObj (set_key kvs ''aggregate'' (JStr groupLabel))
                                      | _ \<Rightarrow> aggCol)
                   else aggCol)
              (map json_clone (aggregateColumns st))
      in bind_res (calcGroupAggregates h newAggCols groupRows) (\<lambda>aggInfo.
         Inr (filter (\<lambda>kv. truthy (snd kv))
                (map (\<lambda>col. (col, get_prop (JObj aggInfo) col)) (map fst colsToShow)))))"

text \<open>\<^verbatim>\<open>#groupTbody\<close>\<close>

definition group_label :: "host \<Rightarrow> jsval list \<Rightarrow> obj \<Rightarrow> string" where
  "group_label h names first =
     join '' | '' (map (\<lambda>c. to_str h c @ '': '' @
                         to_str h (nc (opt_prop (get_prop (JObj first) (to_str h c)) ''disp'')
                                   (nc (opt_prop (get_prop (JObj first) (to_str h c)) ''value'') (JStr []))))
                    names)"

definition groupTbody :: "host \<Rightarrow> comp \<Rightarrow> obj list \<Rightarrow> jsval list \<Rightarrow> obj \<Rightarrow> js_error + group_view" where
  "groupTbody h st groupRows groupColNames colsToShow =
     (case groupRows of
        [] \<Rightarrow> Inl TypeError
      | first # _ \<Rightarrow>
          (let groupLabel = group_label h groupColNames first
           in bind_res (row_trs h colsToShow groupRows) (\<lambda>members.
              bind_res (if aggregateColumns st \<noteq> []
                        then bind_res (subtotalRow h st colsToShow groupRows groupLabel) (\<lambda>a. Inr (Some a))
                        else Inr None) (\<lambda>aggTr.
              Inr \<lparr> g_label = groupLabel,
                    g_header_is_subtotal =
                      list_ex (\<lambda>c. get_prop c ''aggregate'' = JStr ''Total'') (aggregateColumns st),
                    g_members_hidden = True,
                    g_members = members,
                    g_subtotal = aggTr \<rparr>))))"

text \<open>\<^verbatim>\<open>#buildBody\<close>\<close>

definition buildBody :: "host \<Rightarrow> comp \<Rightarrow> obj \<Rightarrow> obj list \<Rightarrow> js_error + tbody" where
  "buildBody h st cols rows =
     (case get_prop (cur_style st) ''group_by'' of
        JArr (g # gs) \<Rightarrow>
          bind_res (map_res group_entry (g # gs)) (\<lambda>levels.
          bind_res (map_res (\<lambda>(k, groupRows). groupTbody h st groupRows (map fst levels) cols)
                      (group_rows h levels rows)) (\<lambda>groups.
          Inr (GroupedBody groups)))
      | _ \<Rightarrow> bind_res (row_trs h cols rows) (\<lambda>trs. Inr (FlatBody trs)))"

text \<open>\<^verbatim>\<open>#buildStandardTable\<close>\<close>

definition buildStandardTable :: "host \<Rightarrow> table_view eff" where
  "buildStandardTable h =
     andThen createAggregateColumnArray (\<lambda>_ st.
       case bind_res (prepare h st) (\<lambda>(cols, rows).
            bind_res (buildBody h st cols rows) (\<lambda>tbody.
            bind_res (if aggregateColumns st \<noteq> []
                      then bind_res (subtotalRow h st cols rows []) (\<lambda>a. Inr (Some a))
                      else Inr None) (\<lambda>tfoot.
            Inr (StandardTable (buildHeader st cols) tbody tfoot)))) of
         Inl e \<Rightarrow> (Inl e, st)
       | Inr t \<Rightarrow> (Inr t, st))"

text \<open>
  \<^verbatim>\<open>#transposeTable\<close>: the corner label, a header cell per row, and a body row per other
  column; reading \<^verbatim>\<open>disp\<close> or \<^verbatim>\<open>type\<close> of a missing column or cell throws.
\<close>

definition need :: "jsval \<Rightarrow> js_error + jsval" where
  "need v = (if nullish v then Inl TypeError else Inr v)"

definition transposeTable :: "host \<Rightarrow> table_view eff" where
  "transposeTable h st =
     (case bind_res (prepare h st) (\<lambda>(cols, rows).
           let colTitlesFrom = nc (get_prop (cur_style st) ''heading_col'')
                                 (case cols of [] \<Rightarrow> JUndef | (c, _) # _ \<Rightarrow> JStr c)
           in bind_res (need (get_prop (JObj cols) (to_str h colTitlesFrom))) (\<lambda>info.
              bind_res (map_res (\<lambda>row. need (get_prop (JObj row) (to_str h colTitlesFrom))) rows) (\<lambda>heads.
              bind_res (map_res (\<lambda>(col, colInfo).
                           bind_res (map_res (\<lambda>row. need (get_prop (JObj row) col)) rows) (\<lambda>cells.
                           Inr (nc (get_prop colInfo ''disp'') (JStr col), cells)))
                         (filter (\<lambda>(c, _). JStr c \<noteq> colTitlesFrom) cols)) (\<lambda>body.
              Inr (TransposedTable (nc (get_prop info ''disp'') colTitlesFrom) heads body))))) of
        Inl e \<Rightarrow> (Inl e, st)
      | Inr t \<Rightarrow> (Inr t, st))"

text \<open>\<^verbatim>\<open>TableMakerComponent.styles\<close>: the theme that is used.\<close>

definition styles :: "jsval \<Rightarrow> string" where
  "styles cssType = (if cssType = JStr ''blueTable'' then ''blueTable'' else ''default'')"

text \<open>
  \<^verbatim>\<open>#render\<close>: the shadow root is cleared first and filled last, so a render that throws
  leaves it empty.
\<close>

definition render :: "host \<Rightarrow> unit eff" where
  "render h =
     andThen (\<lambda>st. (Inr (), st \<lparr> shadow := None \<rparr>)) (\<lambda>_ st.
       if \<not> truthy (tableData st) then (Inr (), st)
       else
         (andThen (style_default ''row_buttons'' (JArr [])) (\<lambda>_.
          andThen (style_default ''row_styles'' (JArr [])) (\<lambda>_.
          andThen (\<lambda>st. lift (as_rows (get_prop (tableData st) ''rows'')) st) (\<lambda>rows.
          andThen (style_write ''expandableRows'' (JBool (hasDetailRows rows))) (\<lambda>_.
          andThen (\<lambda>st. (if transpose st then transposeTable h else buildStandardTable h) st) (\<lambda>tableEl.
          andThen (style_read ''cssType'') (\<lambda>cssType st.
            (Inr (), st \<lparr> shadow := Some (styles cssType, tableEl) \<rparr>)))))))) st)"

subsection \<open>The property setters\<close>

text \<open>
  \<^verbatim>\<open>set data(v)\<close>. A string is parsed; when the parser throws, the previous object is kept,
  two messages go to the console and the method returns before the render. Another
  value is stored as it is and its \<^verbatim>\<open>style\<close> becomes the style.
\<close>

definition set_data :: "host \<Rightarrow> jsval \<Rightarrow> unit eff" where
  "set_data h v st =
     (case v of
        JStr s \<Rightarrow>
          (case json_parse h s of
             Inl e \<Rightarrow> (Inr (), st \<lparr> console := console st @ [InvalidJSON ''data'' s, ParseError e] \<rparr>)
           | Inr d \<Rightarrow>
               (let st1 = st \<lparr> style_ref := OwnStyle (cur_style st), tableData := d \<rparr>
                in if batchMode st1 then (Inr (), st1) else render h st1))
      | _ \<Rightarrow>
          (let st1 = st \<lparr> style_ref := OwnStyle (cur_style st), tableData := v \<rparr>
           in if nullish v then (Inl TypeError, st1)
              else
                (let s = get_prop v ''style'';
                     st2 = st1 \<lparr> style_ref := (if nullish s then OwnStyle (JObj [])
                                               else if is_obj s \<or> isArray s then DataStyle
                                               else OwnStyle s) \<rparr>
                 in andThen (style_default ''cssType'' DEFAULT_CSS_TYPE)
                      (\<lambda>_ st3. if batchMode st3 then (Inr (), st3) else render h st3) st2)))"

text \<open>\<^verbatim>\<open>set styleConfig(v)\<close>\<close>

definition set_styleConfig :: "host \<Rightarrow> jsval \<Rightarrow> unit eff" where
  "set_styleConfig h v st =
     (case (case v of JStr s \<Rightarrow> json_parse h s | _ \<Rightarrow> Inr v) of
        Inl e \<Rightarrow>
          (Inr (), st \<lparr> console := console st @
                          [InvalidJSON ''style-config'' (case v of JStr s \<Rightarrow> s | _ \<Rightarrow> []), ParseError e] \<rparr>)
      | Inr s \<Rightarrow>
          andThen (style_default ''cssType'' DEFAULT_CSS_TYPE)
            (\<lambda>_ st2. if batchMode st2 then (Inr (), st2) else render h st2)
            (st \<lparr> style_ref := OwnStyle s \<rparr>))"

text \<open>\<^verbatim>\<open>get data()\<close>\<close>

definition get_data :: "comp \<Rightarrow> jsval" where
  "get_data st = tableData st"

text \<open>
  \<^verbatim>\<open>#sortBy\<close>: the rows of the data are sorted in place, the sort state is stored and the
  table is rendered again.
\<close>

definition sortBy :: "host \<Rightarrow> string \<Rightarrow> bool \<Rightarrow> unit eff" where
  "sortBy h columnKey asc st =
     (if \<not> truthy (opt_prop (tableData st) ''rows'') then (Inr (), st)
      else
        (case as_rows (get_prop (tableData st) ''rows'') of
           Inl e \<Rightarrow> (Inl e, st)
         | Inr rows \<Rightarrow>
             (let sorted = sort_rows h (get_prop (tableData st) ''cols'') columnKey asc rows;
                  st1 = st \<lparr> tableData := JObj (set_key (the_obj (tableData st)) ''rows''
                                                  (JArr (map JObj sorted))),
                             sortedColumn := (JStr columnKey, asc) \<rparr>
              in render h st1)))"

text \<open>
  The click listener of the header, for a click on the header cell with the key \<open>col\<close>: a
  key that is falsy (the empty string) ends the listener; otherwise the table is sorted by
  the column, and the direction flips on the active column.
\<close>

definition header_click :: "host \<Rightarrow> string \<Rightarrow> unit eff" where
  "header_click h col st =
     (if col = [] then (Inr (), st)
      else sortBy h col (if fst (sortedColumn st) = JStr col then \<not> snd (sortedColumn st) else True) st)"

text \<open>
  The handler made by \<^verbatim>\<open>#makeToggleHandler\<close>, on the rows of a body: the row after the
  toggle's row changes its visibility and the caret changes. The handler contains no
  \<^verbatim>\<open>dispatchEvent\<close> (nor does any other part of the table-maker): the list of events it
  dispatches is empty. The result is the body, whether the caret now points down, and
  the events; a toggle with no following row throws.
\<close>

definition toggle_click :: "tr list \<Rightarrow> nat \<Rightarrow> js_error + tr list \<times> bool \<times> jsval list" where
  "toggle_click body i =
     (if Suc i < length body then
        (case body ! Suc i of
           DetailTr hidden nested other \<Rightarrow>
             Inr (body [Suc i := DetailTr (\<not> hidden) nested other], hidden, [])
         | DataTr cells t \<Rightarrow> Inl Unmodelled)
      else Inl TypeError)"

section \<open>The tab-handler component\<close>

text \<open>
  A \<^verbatim>\<open>tab-handler\<close> element: its id, the parsed \<^verbatim>\<open>data-path\<close> attribute (absent when the
  attribute is missing or is not JSON), its tab specifications and a pane per
  specification. A pane has the identifier shared by its button and its content
  \<^verbatim>\<open>div\<close>, whether the \<^verbatim>\<open>div\<close> is displayed, whether the button is active, the
  \<^verbatim>\<open>unrendered\<close> marker, the stored specification and the child handler inside the
  \<^verbatim>\<open>div\<close>, if any.
\<close>

datatype pane =
  Pane (p_key: string) (p_shown: bool) (p_active: bool) (p_unrendered: bool) (p_tabSpec: jsval)
       (p_nested: "handler option")
and handler =
  Handler (h_id: string) (h_path: "jsval option") (h_tabData: "jsval list") (h_panes: "pane list")

record tab_event =
  ev_path :: jsval
  ev_tabID :: string
  ev_tabSpec :: jsval

text \<open>\<^verbatim>\<open>TabHandlerComponent._cssSafe\<close>\<close>

definition css_chars :: string where
  "css_chars = lower_letters @ upper_letters @ digit_chars @ ''_-''"

fun collapse_underscores :: "string \<Rightarrow> string" where
  "collapse_underscores (c # d # cs) =
     (if c = CHR ''_'' \<and> d = CHR ''_'' then collapse_underscores (d # cs)
      else c # collapse_underscores (d # cs))"
| "collapse_underscores cs = cs"

definition cssSafe :: "host \<Rightarrow> jsval \<Rightarrow> string" where
  "cssSafe h raw =
     (let s = collapse_underscores
                (map (\<lambda>c. if c \<in> set css_chars then c else CHR ''_'') (to_str h raw))
      in case s of [] \<Rightarrow> [] | c # _ \<Rightarrow> if c \<in> set digit_chars then CHR ''_'' # s else s)"

text \<open>
  The identifier of an entry in \<^verbatim>\<open>_renderTabs\<close> (\<^verbatim>\<open>_cssSafe\<close> of the id or the title), and
  the one computed by \<^verbatim>\<open>_createNestedHandlers\<close> and \<^verbatim>\<open>openTab\<close> (the id as it is, or
  \<^verbatim>\<open>_cssSafe\<close> of the title). \<^verbatim>\<open>'id' in t\<close> throws when \<^verbatim>\<open>t\<close> is a primitive.
\<close>

definition entry_key :: "host \<Rightarrow> jsval \<Rightarrow> js_error + string" where
  "entry_key h t =
     (case t of
        JObj kvs \<Rightarrow> Inr (cssSafe h (if has_key kvs ''id'' then get_prop t ''id'' else get_prop t ''title''))
      | JArr _ \<Rightarrow> Inr (cssSafe h JUndef)
      | _ \<Rightarrow> Inl TypeError)"

definition leaf_id :: "host \<Rightarrow> jsval \<Rightarrow> js_error + string" where
  "leaf_id h spec =
     (case spec of
        JObj kvs \<Rightarrow> Inr (if has_key kvs ''id'' then to_str h (get_prop spec ''id'')
                         else cssSafe h (get_prop spec ''title''))
      | JArr _ \<Rightarrow> Inr (cssSafe h JUndef)
      | _ \<Rightarrow> Inl TypeError)"

text \<open>\<^verbatim>\<open>getElementById\<close>: the first pane with the identifier.\<close>

fun find_pane :: "string \<Rightarrow> pane list \<Rightarrow> nat option" where
  "find_pane k [] = None"
| "find_pane k (p # ps) = (if p_key p = k then Some 0 else map_option Suc (find_pane k ps))"

definition hide :: "pane \<Rightarrow> pane" where
  "hide p = Pane (p_key p) False False (p_unrendered p) (p_tabSpec p) (p_nested p)"

text \<open>
  \<^verbatim>\<open>_populateTabWithoutOpening\<close>: a pane that still has the marker dispatches the
  \<^verbatim>\<open>renderTab\<close> event and loses the marker; without the marker nothing happens.
\<close>

definition populate :: "jsval option \<Rightarrow> string \<Rightarrow> pane \<Rightarrow> (js_error + pane) \<times> tab_event list" where
  "populate path tid p =
     (if \<not> p_unrendered p then (Inr p, [])
      else (case path of
              None \<Rightarrow> (Inl SyntaxError, [])
            | Some pth \<Rightarrow>
                (Inr (Pane (p_key p) (p_shown p) (p_active p) False (p_tabSpec p) (p_nested p)),
                 [\<lparr> ev_path = pth, ev_tabID = tid, ev_tabSpec = p_tabSpec p \<rparr>])))"

lemma find_pane_nested_size:
  "find_pane k ps = Some i \<Longrightarrow> p_nested (ps ! i) = Some nh \<Longrightarrow> size nh < size_list size ps"
proof (induction ps arbitrary: i)
  case Nil
  then show ?case by simp
next
  case (Cons p ps)
  show ?case
  proof (cases "p_key p = k")
    case True
    with Cons.prems have "i = 0" by simp
    with Cons.prems show ?thesis by (cases p) auto
  next
    case False
    with Cons.prems obtain j where j: "find_pane k ps = Some j" "i = Suc j" by auto
    with Cons.prems Cons.IH[of j] show ?thesis by simp
  qed
qed

lemma find_pane_hide: "find_pane k (map hide ps) = find_pane k ps"
  by (induction ps) (auto simp: hide_def)

text \<open>
  The panes and buttons of a handler carry the class \<^verbatim>\<open>${this.id}_all_children\<close>, and
  \<^verbatim>\<open>openTab\<close> finds them with the selectors \<^verbatim>\<open>.tabcontent.${this.id}_all_children\<close> and
  \<^verbatim>\<open>.tablinks.${this.id}_all_children\<close>. What the selectors do depends on the id. For an id of
  letters, digits, underscores and hyphens the class is an identifier, and the selectors
  match the panes and buttons, unless it starts like a number (a digit, or a hyphen and a
  digit): then the selector is invalid and \<^verbatim>\<open>querySelectorAll\<close> throws. An id with dots gives
  a selector for several classes, valid if each part is an identifier; it matches nothing,
  since no element has the last of these classes. Ids with other characters (white space,
  combinators, escapes) are outside the model.
\<close>

definition ident_ok :: "string \<Rightarrow> bool" where
  "ident_ok s =
     (list_all (\<lambda>c. c \<in> set css_chars) s
      \<and> (case s of
            [] \<Rightarrow> False
          | c # cs \<Rightarrow>
              c \<notin> set digit_chars
              \<and> (c = CHR ''-'' \<longrightarrow> (case cs of [] \<Rightarrow> False | d # _ \<Rightarrow> d \<notin> set digit_chars))))"

fun split_dots :: "string \<Rightarrow> string list" where
  "split_dots [] = [[]]"
| "split_dots (c # cs) =
     (if c = CHR ''.'' then [] # split_dots cs
      else (case split_dots cs of seg # segs \<Rightarrow> (c # seg) # segs | [] \<Rightarrow> [[c]]))"

datatype selector = Matches | NoMatch | Invalid | Unknown

definition sibling_selector :: "string \<Rightarrow> selector" where
  "sibling_selector hid =
     (if \<not> list_all (\<lambda>c. c \<in> set css_chars \<or> c = CHR ''.'') hid then Unknown
      else (case split_dots (hid @ ''_all_children'') of
              [seg] \<Rightarrow> if ident_ok seg then Matches else Invalid
            | segs \<Rightarrow> if list_all ident_ok segs then NoMatch else Invalid))"

text \<open>
  \<^verbatim>\<open>openTab\<close>: the panes and buttons that the sibling selectors match are hidden and made
  inactive, the selected pane is shown and its button made active; if the pane holds a
  child handler, the child opens its first tab, otherwise the pane is populated. The
  result is the handler and the events dispatched; an invalid selector and a missing pane
  throw.
\<close>

function openTab :: "host \<Rightarrow> handler \<Rightarrow> string \<Rightarrow> (js_error + handler) \<times> tab_event list" where
  "openTab h (Handler hid path td panes) tid =
     (case sibling_selector hid of
        Invalid \<Rightarrow> (Inl DomSyntaxError, [])
      | Unknown \<Rightarrow> (Inl Unmodelled, [])
      | sel \<Rightarrow>
          (case find_pane tid panes of
             None \<Rightarrow> (Inl TypeError, [])
           | Some i \<Rightarrow>
               (let p = panes ! i;
                    p1 = Pane (p_key p) True True (p_unrendered p) (p_tabSpec p) (p_nested p);
                    done = (\<lambda>q. Handler hid path td
                                   ((if sel = Matches then map hide panes else panes) [i := q]))
                in case p_nested p of
                     Some nh \<Rightarrow>
                       (case h_tabData nh of
                          [] \<Rightarrow> (Inr (done p1), [])
                        | firstSpec # _ \<Rightarrow>
                            if \<not> truthy firstSpec then (Inr (done p1), [])
                            else (case leaf_id h firstSpec of
                                    Inl e \<Rightarrow> (Inl e, [])
                                  | Inr leaf \<Rightarrow>
                                      (case openTab h nh leaf of
                                         (Inl e, evs) \<Rightarrow> (Inl e, evs)
                                       | (Inr nh', evs) \<Rightarrow>
                                           (Inr (done (Pane (p_key p) True True (p_unrendered p)
                                                         (p_tabSpec p) (Some nh'))), evs))))
                   | None \<Rightarrow>
                       (case populate path tid p1 of
                          (Inl e, evs) \<Rightarrow> (Inl e, evs)
                        | (Inr p2, evs) \<Rightarrow> (Inr (done p2), evs)))))"
  by pat_completeness auto
termination
  by (relation "measure (\<lambda>(h, hd, t). size hd)") (auto dest: find_pane_nested_size)


lemma map_of_size: "map_of kvs k = Some v \<Longrightarrow> size v < size_list (size_prod (\<lambda>_. 0) size) kvs"
  by (induction kvs) (auto split: if_splits)

lemma get_prop_tabs_size:
  "get_prop spec k = JArr xs \<Longrightarrow> size_list size xs < size spec"
  by (cases spec) (auto simp: get_prop_def split: option.splits dest!: map_of_size)

text \<open>\<^verbatim>\<open>[...v]\<close>\<close>

definition spread :: "jsval \<Rightarrow> js_error + jsval list" where
  "spread v = (case v of JArr xs \<Rightarrow> Inr xs
                       | JStr s \<Rightarrow> if s = [] then Inr [] else Inl Unmodelled
                       | _ \<Rightarrow> Inl TypeError)"

text \<open>\<^verbatim>\<open>parentContentDiv.appendChild(nested)\<close>, the pane found by its identifier.\<close>

fun attach :: "string \<Rightarrow> handler \<Rightarrow> pane list \<Rightarrow> pane list" where
  "attach k nh [] = []"
| "attach k nh (p # ps) =
     (if p_key p = k
      then Pane (p_key p) (p_shown p) (p_active p) (p_unrendered p) (p_tabSpec p)
             (case p_nested p of None \<Rightarrow> Some nh | Some first \<Rightarrow> Some first) # ps
      else p # attach k nh ps)"

text \<open>
  \<^verbatim>\<open>_renderTabs\<close> and its second loop, which creates the child handler of every entry with
  a non-empty \<^verbatim>\<open>tabs\<close> array (\<^verbatim>\<open>_createNestedHandlers\<close>): the child is given its id and
  path and its \<^verbatim>\<open>tabData\<close>, which renders it at once, and it is appended to the pane. Then
  the first tab is opened.

  \<open>att\<close> says whether the rendering element is attached to a document. If it is, the child
  becomes attached when it is appended, and its \<^verbatim>\<open>connectedCallback\<close> renders it a second
  time, now as an attached element; the events of both renders are dispatched. An
  exception of the callback would be reported and not thrown; the second render has the
  outcome of the first (lemma \<open>renderTabs_attached\<close> below), so there is none.
\<close>

function renderTabs :: "host \<Rightarrow> bool \<Rightarrow> string \<Rightarrow> jsval option \<Rightarrow> jsval list \<Rightarrow> (js_error + handler) \<times> tab_event list"
  and createNested :: "host \<Rightarrow> bool \<Rightarrow> string \<Rightarrow> jsval option \<Rightarrow> jsval list \<Rightarrow> pane list \<Rightarrow> (js_error + pane list) \<times> tab_event list"
where
  "renderTabs h att hid path tabData =
     (case map_res (entry_key h) tabData of
        Inl e \<Rightarrow> (Inl e, [])
      | Inr keys \<Rightarrow>
          (case createNested h att hid path tabData
                  (map (\<lambda>(k, t). Pane k False False True (json_clone t) None) (zip keys tabData)) of
             (Inl e, evs) \<Rightarrow> (Inl e, evs)
           | (Inr panes, evs) \<Rightarrow>
               (case keys of
                  [] \<Rightarrow> (Inr (Handler hid path tabData panes), evs)
                | firstTabId # _ \<Rightarrow>
                    (case openTab h (Handler hid path tabData panes) firstTabId of
                       (r, evs') \<Rightarrow> (r, evs @ evs')))))"
| "createNested h att hid path [] panes = (Inr panes, [])"
| "createNested h att hid path (spec # rest) panes =
     (case get_prop spec ''tabs'' of
        JArr (t # ts) \<Rightarrow>
          (case path of
             None \<Rightarrow> (Inl SyntaxError, [])
           | Some acc \<Rightarrow>
               (case bind_res (entry_key h spec) (\<lambda>k.
                     bind_res (leaf_id h spec) (\<lambda>leaf.
                     bind_res (spread acc) (\<lambda>xs. Inr (k, hid @ ''_nested_'' @ leaf, xs)))) of
                  Inl e \<Rightarrow> (Inl e, [])
                | Inr (k, nestedId, xs) \<Rightarrow>
                    (case renderTabs h False nestedId
                            (Some (json_clone (JArr (xs @ [JStr nestedId])))) (t # ts) of
                       (Inl e, evs) \<Rightarrow> (Inl e, evs)
                     | (Inr nh, evs) \<Rightarrow>
                         (case (if att
                                then (case renderTabs h True nestedId
                                             (Some (json_clone (JArr (xs @ [JStr nestedId])))) (t # ts) of
                                        (Inl e, evs2) \<Rightarrow> (nh, evs2)
                                      | (Inr nh2, evs2) \<Rightarrow> (nh2, evs2))
                                else (nh, [])) of
                            (child, evs2) \<Rightarrow>
                              (case createNested h att hid path rest (attach k child panes) of
                                 (r, evs') \<Rightarrow> (r, evs @ evs2 @ evs'))))))
      | _ \<Rightarrow> createNested h att hid path rest panes)"
  by pat_completeness auto
termination
  by (relation "measure (\<lambda>x. case x of
            Inl (h, att, hid, path, td) \<Rightarrow> 2 * size_list size td + 1
          | Inr (h, att, hid, path, specs, panes) \<Rightarrow> 2 * size_list size specs)")
     (auto dest!: get_prop_tabs_size simp: bind_res_def split: sum.splits)

text \<open>\<^verbatim>\<open>set tabData(value)\<close>: a value that is not an array is ignored with a warning.\<close>

definition set_tabData :: "host \<Rightarrow> bool \<Rightarrow> handler \<Rightarrow> jsval \<Rightarrow> (js_error + handler) \<times> tab_event list" where
  "set_tabData h att el v =
     (case v of
        JArr specs \<Rightarrow> renderTabs h att (h_id el) (h_path el) specs
      | _ \<Rightarrow> (Inr el, []))"

section \<open>A host for the examples\<close>

text \<open>
  A small host on which the examples below are evaluated: it formats the two amounts of
  the documented money_2 example, writes natural numbers in decimal, compares strings
  lexicographically and parses only the empty object. It rounds to the nearest double,
  ties to the even significand (53 bits, exponents down to the subnormal numbers and up
  to the overflow to infinity); an integer up to \<open>2\<^sup>5\<^sup>3\<close> is a double and is its own
  rounding. Where a comparator is not consistent its sort leaves the
  array as it is, and its nested tables render without an exception.
\<close>

fun bit_length :: "nat \<Rightarrow> nat" where
  "bit_length n = (if n = 0 then 0 else Suc (bit_length (n div 2)))"

declare bit_length.simps [simp del]

definition pow2 :: "int \<Rightarrow> rat" where
  "pow2 k = (if 0 \<le> k then 2 ^ nat k else 1 / 2 ^ nat (- k))"

text \<open>The exponent of the power of two at or below a positive rational.\<close>

definition floor_log2 :: "rat \<Rightarrow> int" where
  "floor_log2 a =
     (if 1 \<le> a then int (bit_length (nat \<lfloor>a\<rfloor>)) - 1
      else - int (bit_length (nat (\<lceil>1 / a\<rceil> - 1))))"

definition round_half_even :: "rat \<Rightarrow> int" where
  "round_half_even q =
     (let f = \<lfloor>q\<rfloor>; d = q - of_int f
      in if d < 1 / 2 then f else if 1 / 2 < d then f + 1 else if even f then f else f + 1)"

definition round_double :: "rat \<Rightarrow> num" where
  "round_double q =
     (if q = 0 then Fin 0
      else (let a = \<bar>q\<bar>;
                sh = max (floor_log2 a - 52) (- 1074);
                r = of_int (round_half_even (a / pow2 sh)) * pow2 sh
            in if pow2 1024 \<le> r then (if 0 < q then PInf else NInf)
               else Fin (if 0 < q then r else - r)))"

definition sample_round :: "rat \<Rightarrow> num" where
  "sample_round q =
     (if q = of_int \<lfloor>q\<rfloor> \<and> \<bar>q\<bar> \<le> 9007199254740992 then Fin q else round_double q)"

definition rupee :: string where
  "rupee = [CHR 0xE2, CHR 0x82, CHR 0xB9]"

fun nat_str :: "nat \<Rightarrow> string" where
  "nat_str n = (if n < 10 then [digit_chars ! n] else nat_str (n div 10) @ [digit_chars ! (n mod 10)])"

definition sample_num_str :: "num \<Rightarrow> string" where
  "sample_num_str n =
     (case n of
        Fin q \<Rightarrow> if 0 \<le> q \<and> q = of_int \<lfloor>q\<rfloor> then nat_str (nat \<lfloor>q\<rfloor>) else ''?''
      | PInf \<Rightarrow> ''Infinity''
      | NInf \<Rightarrow> ''-Infinity''
      | NaN \<Rightarrow> ''NaN'')"

definition sample_intl :: "string option \<Rightarrow> nf_opts \<Rightarrow> jsval \<Rightarrow> js_error + string" where
  "sample_intl locale opts amount =
     (if nf_currency opts = ''INR'' \<and> amount = JNum (Fin 12000)
         \<and> nf_minimumFractionDigits opts = JNum (Fin 0)
      then Inr (rupee @ ''12,000'')
      else if nf_currency opts = ''USD'' \<and> amount = JNum (Fin (291 / 2))
         \<and> nf_minimumFractionDigits opts = JNum (Fin 2)
      then Inr ''$145.50''
      else (case amount of
              JNum n \<Rightarrow> Inr (nf_currency opts @ '' '' @ sample_num_str n)
            | _ \<Rightarrow> Inr (nf_currency opts @ '' NaN'')))"

definition sample_compare :: "string \<Rightarrow> string \<Rightarrow> int" where
  "sample_compare a b = (if a = b then 0 else if a < b then -1 else 1)"

definition sample_host :: host where
  "sample_host =
     \<lparr> intl_format = sample_intl,
       toLocaleString_enUS = (\<lambda>n p. Inr (sample_num_str n)),
       toFixed = (\<lambda>n p. Inr (sample_num_str n)),
       date_getTime = (\<lambda>v. NaN),
       date_toISOString = (\<lambda>n. ''1970-01-01T00:00:00.000Z''),
       string_to_number =
         (\<lambda>s. if list_all (\<lambda>c. c \<in> set digit_chars) s then Fin (of_nat (dec_value s)) else NaN),
       number_to_string = sample_num_str,
       localeCompare = sample_compare,
       localeCompare_numeric_base = sample_compare,
       json_parse = (\<lambda>s. if s = ''{}'' then Inr (JObj []) else Inl SyntaxError),
       fp_round = sample_round,
       sort_choice = (\<lambda>c xs. xs),
       nested_table = (\<lambda>v. Inr ()) \<rparr>"

section \<open>Auxiliary facts\<close>

lemmas col_type_defs =
  MONEY_def MONEY2_def FLOAT_def FLOAT5_def PERCENT_def PERCENT1_def DATE_def TEXT_def

lemmas default_defs = DEFAULT_PRECISION_def DEFAULT_CURRENCY_def DEFAULT_CSS_TYPE_def

lemma map_res_map: "map_res f (map g xs) = map_res (\<lambda>x. f (g x)) xs"
  by (induction xs) (auto split: sum.splits)

lemma map_res_cong_set: "(\<And>x. x \<in> set xs \<Longrightarrow> f x = g x) \<Longrightarrow> map_res f xs = map_res g xs"
  by (induction xs) (auto split: sum.splits)

lemma map_res_Inr_all2: "map_res f xs = Inr ys \<Longrightarrow> list_all2 (\<lambda>x y. f x = Inr y) xs ys"
  by (induction xs arbitrary: ys) (auto split: sum.splits)

lemma all2_map_res_Inr: "list_all2 (\<lambda>x y. f x = Inr y) xs ys \<Longrightarrow> map_res f xs = Inr ys"
  by (induction xs ys rule: list_all2_induct) auto

lemma zip_with_indices: "zip xs [0 ..< length xs] = map (\<lambda>i. (xs ! i, i)) [0 ..< length xs]"
  by (rule nth_equalityI) auto

lemma at_index_clamped:
  assumes "xs \<noteq> []"
  shows "at_index xs (min (int i) (int (length xs) - 1)) = xs ! min i (length xs - 1)"
proof -
  from assms have len: "0 < length xs" by simp
  then have eq: "min (int i) (int (length xs) - 1) = int (min i (length xs - 1))"
    by linarith
  have "min i (length xs - 1) < length xs" using len by linarith
  then show ?thesis unfolding eq at_index_def by simp
qed

section \<open>Formatting of dual-currency amounts\<close>

text \<open>
  The description of \<^verbatim>\<open>formatMoney2\<close> in the specification, word for word: element \<open>i\<close> is
  formatted with the precision and the currency at index \<open>min(i, length - 1)\<close>, and the
  results are joined with a line break.
\<close>

definition formatMoney2_spec :: "host \<Rightarrow> jsval list \<Rightarrow> jsval list \<Rightarrow> jsval list \<Rightarrow> js_error + string" where
  "formatMoney2_spec h amounts precisions currencies =
     bind_res
       (map_res (\<lambda>i. formatMoney h (amounts ! i)
                       (precisions ! min i (length precisions - 1))
                       (currencies ! min i (length currencies - 1)))
          [0 ..< length amounts])
       (\<lambda>parts. Inr (join ''<br>'' parts))"

text \<open>
  Claim C10. For precision and currency sequences that are not empty,
  \<^verbatim>\<open>formatMoney2\<close> formats element \<open>i\<close> of the amounts with the precision and currency at
  index \<open>min(i, length - 1)\<close> and joins the results with \<^verbatim>\<open><br>\<close>. For the amounts
  12000 and 145.50 with precisions 0, 2 and currencies INR, USD the result is the two
  formatted amounts, whatever the host renders them as, around one \<^verbatim>\<open><br>\<close>.
\<close>

theorem formatMoney2_clamped:
  "(precisions \<noteq> [] \<and> currencies \<noteq> [] \<longrightarrow>
      formatMoney2 h amounts precisions currencies = formatMoney2_spec h amounts precisions currencies)
   \<and> (formatMoney h (JNum (Fin 12000)) (JNum (Fin 0)) (JStr ''INR'') = Inr a
        \<and> formatMoney h (JNum (Fin (291 / 2))) (JNum (Fin 2)) (JStr ''USD'') = Inr b \<longrightarrow>
      formatMoney2 h [JNum (Fin 12000), JNum (Fin (291 / 2))] [JNum (Fin 0), JNum (Fin 2)]
        [JStr ''INR'', JStr ''USD''] = Inr (a @ ''<br>'' @ b))"
proof (intro conjI impI)
  assume ne: "precisions \<noteq> [] \<and> currencies \<noteq> []"
  show "formatMoney2 h amounts precisions currencies = formatMoney2_spec h amounts precisions currencies"
    using ne
    by (simp add: formatMoney2_def formatMoney2_spec_def zip_with_indices map_res_map
        at_index_clamped Let_def)
next
  assume ex: "formatMoney h (JNum (Fin 12000)) (JNum (Fin 0)) (JStr ''INR'') = Inr a
        \<and> formatMoney h (JNum (Fin (291 / 2))) (JNum (Fin 2)) (JStr ''USD'') = Inr b"
  have idx: "[0 ..< Suc (Suc 0)] = [0, Suc 0]" by (simp add: upt_rec)
  show "formatMoney2 h [JNum (Fin 12000), JNum (Fin (291 / 2))] [JNum (Fin 0), JNum (Fin 2)]
        [JStr ''INR'', JStr ''USD''] = Inr (a @ ''<br>'' @ b)"
    using ex by (simp add: formatMoney2_def idx at_index_def bind_res_def)
qed

theorem formatMoney2_clamped_witness:
  "formatMoney2 sample_host [JNum (Fin 12000), JNum (Fin (291 / 2)), JNum (Fin 12000)]
        [JNum (Fin 0), JNum (Fin 2)] [JStr ''INR'']
     = formatMoney2_spec sample_host [JNum (Fin 12000), JNum (Fin (291 / 2)), JNum (Fin 12000)]
        [JNum (Fin 0), JNum (Fin 2)] [JStr ''INR'']
   \<and> formatMoney2 sample_host [JNum (Fin 12000), JNum (Fin (291 / 2))] [JNum (Fin 0), JNum (Fin 2)]
        [JStr ''INR'', JStr ''USD''] = Inr (rupee @ ''12,000<br>$145.50'')"
proof -
  have a: "formatMoney sample_host (JNum (Fin 12000)) (JNum (Fin 0)) (JStr ''INR'') = Inr (rupee @ ''12,000'')"
    by (simp add: formatMoney_def formatCurrency_def sample_host_def sample_intl_def dflt_def
        toUpperCase_def upper_letters_def lower_letters_def)
  have b: "formatMoney sample_host (JNum (Fin (291 / 2))) (JNum (Fin 2)) (JStr ''USD'') = Inr ''$145.50''"
    by (simp add: formatMoney_def formatCurrency_def sample_host_def sample_intl_def dflt_def
        toUpperCase_def upper_letters_def lower_letters_def)
  show ?thesis
    using formatMoney2_clamped [of "[JNum (Fin 0), JNum (Fin 2)]" "[JStr ''INR'']" sample_host
        "[JNum (Fin 12000), JNum (Fin (291 / 2)), JNum (Fin 12000)]" "rupee @ ''12,000''" "''$145.50''"]
      a b
    by simp
qed

section \<open>The currency of a money column\<close>

lemma nc_default_defined [simp]: "dflt (nc v DEFAULT_PRECISION) DEFAULT_PRECISION = nc v DEFAULT_PRECISION"
  by (simp add: dflt_def nc_def nullish_def DEFAULT_PRECISION_def)

lemma formatMoney_two_args:
  "formatMoney h amount (nc p DEFAULT_PRECISION) JUndef
     = formatCurrency h amount (nc p DEFAULT_PRECISION) (JStr ''INR'') True"
  by (simp add: formatMoney_def) (simp add: dflt_def DEFAULT_CURRENCY_def)

lemma money_type_not_nullish:
  "get_prop colInfo ''type'' = JStr MONEY \<Longrightarrow> nc (get_prop colInfo ''type'') d = JStr MONEY"
  by (simp add: nc_def nullish_def)

lemma money_info_not_nullish:
  "get_prop colInfo ''type'' = JStr MONEY \<Longrightarrow> nc colInfo d = colInfo"
  by (cases colInfo) (auto simp: nc_def nullish_def get_prop_def)

lemma derive_cell_money:
  assumes "map_of cols col = Some colInfo" and "get_prop colInfo ''type'' = JStr MONEY"
  shows "derive_cell h cols col raw =
           bind_res (formatCurrency h raw (nc (get_prop colInfo ''precision'') DEFAULT_PRECISION)
                       (JStr ''INR'') True)
             (\<lambda>s. Inr (mk_cell (JStr MONEY) raw (JStr s)))"
proof -
  have info: "nc (get_prop (JObj cols) col) (JObj []) = colInfo"
    using assms by (simp add: get_prop_def money_info_not_nullish)
  show ?thesis
    unfolding derive_cell_def info Let_def money_type_not_nullish [OF assms(2)]
    by (simp add: cell_disp_def col_type_defs str_res_def bind_res_def formatMoney_two_args
        split: sum.splits)
qed

lemma agg_entry_money:
  assumes "get_prop aggCol ''type'' = JStr MONEY"
  shows "agg_entry h rows aggCol =
           bind_res (agg_value h aggCol (to_str h (get_prop aggCol ''col'')) (JStr MONEY) rows)
             (\<lambda>aggVal.
                bind_res (formatCurrency h aggVal (nc (get_prop aggCol ''precision'') DEFAULT_PRECISION)
                            (JStr ''INR'') True)
                  (\<lambda>s. Inr (to_str h (get_prop aggCol ''col''),
                             JObj [(''value'', aggVal), (''disp'', JStr s)])))"
  unfolding agg_entry_def Let_def money_type_not_nullish [OF assms]
  by (simp add: agg_format_def col_type_defs str_res_def bind_res_def formatMoney_two_args
      split: sum.splits)

text \<open>Two descriptors of a money column that differ in the declared currency only, and rows to aggregate.\<close>

definition usd_col :: jsval where
  "usd_col = JObj [(''type'', JStr ''money''), (''precision'', JNum (Fin 0)), (''currency'', JStr ''USD'')]"

definition usd_agg :: jsval where
  "usd_agg = JObj [(''col'', JStr ''revenue''), (''type'', JStr ''money''), (''precision'', JNum (Fin 0)),
                   (''aggregate'', JStr ''sum''), (''currency'', JStr ''USD'')]"


definition eur_col :: jsval where
  "eur_col = JObj [(''type'', JStr ''money''), (''precision'', JNum (Fin 0)), (''currency'', JStr ''EUR'')]"

definition eur_agg :: jsval where
  "eur_agg = JObj [(''col'', JStr ''revenue''), (''type'', JStr ''money''), (''precision'', JNum (Fin 0)),
                   (''aggregate'', JStr ''sum''), (''currency'', JStr ''EUR'')]"

definition revenue_rows :: "obj list" where
  "revenue_rows =
     [[(''revenue'', mk_cell (JStr ''money'') (JNum (Fin 7000)) (JStr ''x''))],
      [(''revenue'', mk_cell (JStr ''money'') (JNum (Fin 5000)) (JStr ''y''))]]"

lemmas sample_eval =
  sample_host_def sample_round_def sample_intl_def sample_num_str_def formatCurrency_def toUpperCase_def
  upper_letters_def lower_letters_def get_prop_def nc_def nullish_def bind_res_def mk_cell_def
  DEFAULT_PRECISION_def col_type_defs

text \<open>
  Claim C3. For a column of type money, the display string of a derived cell and the
  display string of an aggregate are both formatted with the currency INR and the
  column's precision; the currency declared by the column is never read, so two
  descriptors that differ only in it give the same cell and the same aggregate.
\<close>

theorem money_currency_is_default:
  assumes "map_of cols col = Some colInfo"
    and "get_prop colInfo ''type'' = JStr MONEY"
    and "get_prop aggCol ''type'' = JStr MONEY"
  shows "derive_cell h cols col raw =
           bind_res (formatCurrency h raw (nc (get_prop colInfo ''precision'') DEFAULT_PRECISION)
                       (JStr ''INR'') True)
             (\<lambda>s. Inr (mk_cell (JStr MONEY) raw (JStr s)))
       \<and> (map_of cols' col = Some colInfo' \<and> get_prop colInfo' ''type'' = JStr MONEY
            \<and> get_prop colInfo' ''precision'' = get_prop colInfo ''precision''
          \<longrightarrow> derive_cell h cols' col raw = derive_cell h cols col raw)
       \<and> agg_entry h rows aggCol =
           bind_res (agg_value h aggCol (to_str h (get_prop aggCol ''col'')) (JStr MONEY) rows)
             (\<lambda>aggVal.
                bind_res (formatCurrency h aggVal (nc (get_prop aggCol ''precision'') DEFAULT_PRECISION)
                            (JStr ''INR'') True)
                  (\<lambda>s. Inr (to_str h (get_prop aggCol ''col''),
                             JObj [(''value'', aggVal), (''disp'', JStr s)])))
       \<and> (get_prop aggCol' ''type'' = JStr MONEY
            \<and> get_prop aggCol' ''col'' = get_prop aggCol ''col''
            \<and> get_prop aggCol' ''precision'' = get_prop aggCol ''precision''
            \<and> get_prop aggCol' ''aggregate'' = get_prop aggCol ''aggregate''
          \<longrightarrow> agg_entry h rows aggCol' = agg_entry h rows aggCol)"
proof (intro conjI impI)
  show "derive_cell h cols col raw =
           bind_res (formatCurrency h raw (nc (get_prop colInfo ''precision'') DEFAULT_PRECISION)
                       (JStr ''INR'') True)
             (\<lambda>s. Inr (mk_cell (JStr MONEY) raw (JStr s)))"
    by (rule derive_cell_money [OF assms(1,2)])
next
  assume other: "map_of cols' col = Some colInfo' \<and> get_prop colInfo' ''type'' = JStr MONEY
            \<and> get_prop colInfo' ''precision'' = get_prop colInfo ''precision''"
  then show "derive_cell h cols' col raw = derive_cell h cols col raw"
    by (simp add: derive_cell_money [OF assms(1,2)] derive_cell_money [of cols' col colInfo'])
next
  show "agg_entry h rows aggCol =
           bind_res (agg_value h aggCol (to_str h (get_prop aggCol ''col'')) (JStr MONEY) rows)
             (\<lambda>aggVal.
                bind_res (formatCurrency h aggVal (nc (get_prop aggCol ''precision'') DEFAULT_PRECISION)
                            (JStr ''INR'') True)
                  (\<lambda>s. Inr (to_str h (get_prop aggCol ''col''),
                             JObj [(''value'', aggVal), (''disp'', JStr s)])))"
    by (rule agg_entry_money [OF assms(3)])
next
  assume other: "get_prop aggCol' ''type'' = JStr MONEY
            \<and> get_prop aggCol' ''col'' = get_prop aggCol ''col''
            \<and> get_prop aggCol' ''precision'' = get_prop aggCol ''precision''
            \<and> get_prop aggCol' ''aggregate'' = get_prop aggCol ''aggregate''"
  then show "agg_entry h rows aggCol' = agg_entry h rows aggCol"
    by (simp add: agg_entry_money [OF assms(3)] agg_entry_money [of aggCol'] agg_value_def)
qed

theorem money_currency_is_default_witness:
  "derive_cell sample_host [(''revenue'', usd_col)] ''revenue'' (JNum (Fin 12000))
     = Inr (mk_cell (JStr MONEY) (JNum (Fin 12000)) (JStr (rupee @ ''12,000'')))
   \<and> derive_cell sample_host [(''revenue'', eur_col)] ''revenue'' (JNum (Fin 12000))
     = derive_cell sample_host [(''revenue'', usd_col)] ''revenue'' (JNum (Fin 12000))
   \<and> agg_entry sample_host revenue_rows usd_agg
     = Inr (''revenue'', JObj [(''value'', JNum (Fin 12000)), (''disp'', JStr (rupee @ ''12,000''))])
   \<and> agg_entry sample_host revenue_rows eur_agg = agg_entry sample_host revenue_rows usd_agg"
proof -
  have sum: "agg_value sample_host usd_agg ''revenue'' (JStr MONEY) revenue_rows = Inr (JNum (Fin 12000))"
    by (simp add: agg_value_def usd_agg_def sum_plain_def revenue_rows_def js_plus_def sample_eval)
  show ?thesis
    using money_currency_is_default [of "[(''revenue'', usd_col)]" "''revenue''" usd_col usd_agg
        sample_host "JNum (Fin 12000)" "[(''revenue'', eur_col)]" eur_col revenue_rows eur_agg] sum
    by (simp add: usd_col_def eur_col_def usd_agg_def eur_agg_def sample_eval)
qed

section \<open>Deriving the display cells again\<close>

text \<open>
  The raw row behind a row of display cells: every cell is replaced by its \<^verbatim>\<open>value\<close>
  field, the two detail entries stay.
\<close>

definition raw_row :: "obj \<Rightarrow> obj" where
  "raw_row row = map (\<lambda>(col, c). if col \<in> set DETAIL_KEYS then (col, c) else (col, get_prop c ''value'')) row"

lemma derive_cell_value: "derive_cell h cols col raw = Inr c \<Longrightarrow> get_prop c ''value'' = raw"
  by (auto simp: derive_cell_def Let_def bind_res_def mk_cell_def get_prop_def split: sum.splits)

lemma derive_row_raw:
  assumes "derive_row h cols row = Inr out"
  shows "raw_row out = row"
proof -
  let ?f = "\<lambda>(col, raw). if col \<in> set DETAIL_KEYS then Inr (col, raw)
              else bind_res (derive_cell h cols col raw) (\<lambda>c. Inr (col, c))"
  have "list_all2 (\<lambda>x y. ?f x = Inr y) row out"
    using assms unfolding derive_row_def by (rule map_res_Inr_all2)
  then show ?thesis
  proof (induction row out rule: list_all2_induct)
    case Nil
    then show ?case by (simp add: raw_row_def)
  next
    case (Cons x xs y ys)
    obtain col raw where x: "x = (col, raw)" by (cases x)
    from Cons.hyps(1) have "y = (col, raw) \<and> col \<in> set DETAIL_KEYS
        \<or> (\<exists>c. y = (col, c) \<and> col \<notin> set DETAIL_KEYS \<and> derive_cell h cols col raw = Inr c)"
      unfolding x by (auto simp: bind_res_def split: if_splits sum.splits)
    then have "raw_row [y] = [x]"
      unfolding x by (auto simp: raw_row_def dest: derive_cell_value)
    with Cons.IH show ?case by (simp add: raw_row_def)
  qed
qed

lemma createCellDisplayValues_raw:
  assumes "createCellDisplayValues h cols rows = Inr out"
  shows "map raw_row out = rows"
proof -
  have "list_all2 (\<lambda>x y. derive_row h cols x = Inr y) rows out"
    using assms unfolding createCellDisplayValues_def by (rule map_res_Inr_all2)
  then show ?thesis
    by (induction rows out rule: list_all2_induct) (auto dest: derive_row_raw)
qed

text \<open>A one-column table with a text column.\<close>

definition month_cols :: obj where
  "month_cols = [(''month'', JObj [(''type'', JStr ''text'')])]"

definition month_rows :: "obj list" where
  "month_rows = [[(''month'', JStr ''Jan'')]]"

definition month_cell :: jsval where
  "month_cell = mk_cell (JStr ''text'') (JStr ''Jan'') (JStr ''Jan'')"

lemmas derive_eval =
  createCellDisplayValues_def derive_row_def derive_cell_def cell_disp_def DETAIL_KEYS_def
  get_prop_def nc_def nullish_def bind_res_def mk_cell_def col_type_defs

text \<open>
  Applying the derivation to its own output changes \<^verbatim>\<open>disp\<close>: the cell of the first pass
  is taken for the raw value, so for a text column the second \<^verbatim>\<open>disp\<close> is that cell object
  and no longer the string.
\<close>

theorem derive_twice_changes_disp:
  "createCellDisplayValues sample_host month_cols month_rows = Inr [[(''month'', month_cell)]]
   \<and> get_prop month_cell ''disp'' = JStr ''Jan''
   \<and> createCellDisplayValues sample_host month_cols [[(''month'', month_cell)]]
       = Inr [[(''month'', mk_cell (JStr ''text'') month_cell month_cell)]]
   \<and> get_prop (mk_cell (JStr ''text'') month_cell month_cell) ''disp'' = month_cell
   \<and> month_cell \<noteq> JStr ''Jan''"
  by (simp add: month_cols_def month_rows_def month_cell_def derive_eval)

text \<open>
  Claim C1, amended. Every derived cell keeps the raw value in its \<^verbatim>\<open>value\<close> field and
  the detail entries are untouched, so the raw rows are recovered from the derived rows
  and deriving from them again gives the same cells, \<^verbatim>\<open>disp\<close> included.
\<close>

theorem rederive_from_raw:
  assumes "createCellDisplayValues h cols rows = Inr out"
  shows "map raw_row out = rows \<and> createCellDisplayValues h cols (map raw_row out) = Inr out"
  using assms createCellDisplayValues_raw [OF assms] by simp

theorem rederive_from_raw_witness:
  "map raw_row [[(''month'', month_cell)]] = month_rows
   \<and> createCellDisplayValues sample_host month_cols (map raw_row [[(''month'', month_cell)]])
       = Inr [[(''month'', month_cell)]]"
proof -
  have "createCellDisplayValues sample_host month_cols month_rows = Inr [[(''month'', month_cell)]]"
    by (simp add: month_cols_def month_rows_def month_cell_def derive_eval)
  from rederive_from_raw [OF this] show ?thesis .
qed

section \<open>A money_2 value that is not an array\<close>

text \<open>A table whose only column is dual-currency and whose only row holds the number 5 in it.\<close>

definition pay_data :: "jsval \<Rightarrow> jsval" where
  "pay_data colInfo =
     JObj [(''cols'', JObj [(''payments'', colInfo)]),
           (''rows'', JArr [JObj [(''payments'', JNum (Fin 5))]])]"

definition pay_plain :: jsval where
  "pay_plain = JObj [(''type'', JStr ''money_2'')]"

definition pay_summed :: jsval where
  "pay_summed = JObj [(''type'', JStr ''money_2''), (''aggregate'', JStr ''sum'')]"

definition pay_agg :: jsval where
  "pay_agg = JObj [(''col'', JStr ''payments''), (''type'', JStr ''money_2''),
                   (''precision'', JNum (Fin 0)), (''aggregate'', JStr ''sum'')]"

lemma pay_plain_renders:
  "set_data sample_host (pay_data pay_plain) new_comp
     = (Inr (), new_comp \<lparr> tableData := pay_data pay_plain,
          style_ref := OwnStyle (JObj [(''cssType'', JStr ''default''), (''row_buttons'', JArr []),
             (''row_styles'', JArr []), (''expandableRows'', JBool False), (''aggregateCols'', JObj [])]),
          shadow := Some (''default'',
             StandardTable [(''payments'', JStr ''money_2'', JStr ''payments'', None)]
               (FlatBody [DataTr [mk_cell (JStr ''money_2'') (JNum (Fin 5)) (JStr [])] False]) None) \<rparr>)"
  by code_simp

lemma pay_summed_throws:
  "fst (set_data sample_host (pay_data pay_summed) new_comp) = Inl TypeError"
  by code_simp

lemma pay_summed_empty:
  "shadow (snd (set_data sample_host (pay_data pay_summed) new_comp)) = None"
  by code_simp

text \<open>
  Claim C8. Without an aggregate the cell degrades to an empty display string and the
  table is rendered. With \<^verbatim>\<open>aggregate: 'sum'\<close> on the same column the footer calls
  \<^verbatim>\<open>forEach\<close> on the number: \<^verbatim>\<open>calcGroupAggregates\<close> throws a TypeError, the render throws
  with it and leaves the shadow root empty.
\<close>

theorem money2_sum_of_non_array_throws:
  "createCellDisplayValues h [(''payments'', pay_plain)] [[(''payments'', JNum (Fin 5))]]
     = Inr [[(''payments'', mk_cell (JStr ''money_2'') (JNum (Fin 5)) (JStr []))]]
   \<and> calcGroupAggregates h [pay_agg]
       [[(''payments'', mk_cell (JStr ''money_2'') (JNum (Fin 5)) (JStr []))]] = Inl TypeError
   \<and> fst (set_data sample_host (pay_data pay_summed) new_comp) = Inl TypeError
   \<and> shadow (snd (set_data sample_host (pay_data pay_summed) new_comp)) = None"
proof -
  have cell: "createCellDisplayValues h [(''payments'', pay_plain)] [[(''payments'', JNum (Fin 5))]]
     = Inr [[(''payments'', mk_cell (JStr ''money_2'') (JNum (Fin 5)) (JStr []))]]"
    by (simp add: pay_plain_def derive_eval formatMoney2_def array_or_def str_res_def)
  have agg: "calcGroupAggregates h [pay_agg]
       [[(''payments'', mk_cell (JStr ''money_2'') (JNum (Fin 5)) (JStr []))]] = Inl TypeError"
    by (simp add: calcGroupAggregates_def agg_entry_def agg_value_def pay_agg_def get_prop_def
        nc_def nullish_def bind_res_def mk_cell_def col_type_defs)
  show ?thesis
    using cell agg pay_summed_throws pay_summed_empty by simp
qed

section \<open>The stored data across renders\<close>

text \<open>
  The style is an object of the component's own, not the one stored in the data; and a
  step that, from such a state, leaves the data as it is and the style the component's own.
\<close>

definition own_styled :: "comp \<Rightarrow> bool" where
  "own_styled st = (case style_ref st of OwnStyle _ \<Rightarrow> True | DataStyle \<Rightarrow> False)"

definition keeps_data :: "'a eff \<Rightarrow> bool" where
  "keeps_data m = (\<forall>st. own_styled st \<longrightarrow> tableData (snd (m st)) = tableData st \<and> own_styled (snd (m st)))"

lemma keeps_dataI:
  "(\<And>st. own_styled st \<Longrightarrow> tableData (snd (m st)) = tableData st \<and> own_styled (snd (m st))) \<Longrightarrow> keeps_data m"
  by (simp add: keeps_data_def)

lemma keeps_dataD:
  "keeps_data m \<Longrightarrow> own_styled st \<Longrightarrow> tableData (snd (m st)) = tableData st \<and> own_styled (snd (m st))"
  by (simp add: keeps_data_def)

lemma keeps_ret: "keeps_data (ret x)"
  by (simp add: keeps_data_def ret_def)

lemma keeps_lift: "keeps_data (lift r)"
  by (simp add: keeps_data_def lift_def)

lemma keeps_same: "(\<And>st. snd (m st) = st) \<Longrightarrow> keeps_data m"
  by (simp add: keeps_data_def)

lemma keeps_andThen:
  assumes "keeps_data m" and "\<And>x. keeps_data (f x)"
  shows "keeps_data (andThen m f)"
proof (rule keeps_dataI)
  fix st :: comp
  assume own: "own_styled st"
  obtain r st' where m: "m st = (r, st')" by (cases "m st")
  from keeps_dataD [OF assms(1) own] m have st': "tableData st' = tableData st" "own_styled st'"
    by simp_all
  show "tableData (snd (andThen m f st)) = tableData st \<and> own_styled (snd (andThen m f st))"
  proof (cases r)
    case (Inl e)
    with m st' show ?thesis by (simp add: andThen_def)
  next
    case (Inr x)
    from keeps_dataD [OF assms(2) st'(2), of x] st'(1) m Inr show ?thesis
      by (simp add: andThen_def)
  qed
qed

lemma keeps_style_read: "keeps_data (style_read k)"
  by (rule keeps_same) (simp add: style_read_def)

lemma own_put_style: "own_styled st \<Longrightarrow> tableData (put_style s st) = tableData st \<and> own_styled (put_style s st)"
  by (auto simp: own_styled_def put_style_def split: style_ref.splits)

lemma keeps_style_write: "keeps_data (style_write k x)"
  by (rule keeps_dataI) (auto simp: style_write_def own_put_style split: jsval.splits)

lemma keeps_style_default: "keeps_data (style_default k d)"
  unfolding style_default_def
  by (intro keeps_andThen keeps_style_read) (simp add: keeps_style_write keeps_ret)

lemma keeps_agg_put: "keeps_data (agg_put col x)"
  unfolding agg_put_def
  by (intro keeps_andThen keeps_style_read) (simp add: keeps_style_write keeps_lift split: jsval.splits)

lemma keeps_collect_aggs: "keeps_data (collect_aggs es)"
proof (induction es)
  case Nil
  show ?case by (simp add: keeps_ret)
next
  case (Cons e es)
  obtain col colInfo where e: "e = (col, colInfo)" by (cases e)
  have "keeps_data (case colInfo of
          JObj kvs \<Rightarrow> if has_key kvs ''aggregate'' then agg_put col (get_prop colInfo ''aggregate'')
                      else ret ()
        | JArr _ \<Rightarrow> ret ()
        | _ \<Rightarrow> lift (Inl TypeError))"
    by (simp add: keeps_agg_put keeps_ret keeps_lift split: jsval.splits)
  with Cons.IH show ?case unfolding e by (simp add: keeps_andThen)
qed

lemma keeps_createAggregateColumnArray: "keeps_data createAggregateColumnArray"
  unfolding createAggregateColumnArray_def
proof (intro keeps_andThen keeps_style_read)
  fix ac :: jsval
  show "keeps_data (if truthy ac then ret ()
              else andThen (style_write ''aggregateCols'' (JObj [])) (\<lambda>_.
                   andThen (\<lambda>st. lift (obj_entries (get_prop (tableData st) ''cols'')) st)
                     collect_aggs))"
  proof (cases "truthy ac")
    case True
    then show ?thesis by (simp add: keeps_ret)
  next
    case False
    have "keeps_data (\<lambda>st. lift (obj_entries (get_prop (tableData st) ''cols'')) st)"
      by (rule keeps_same) (simp add: lift_def)
    then have "keeps_data (andThen (style_write ''aggregateCols'' (JObj [])) (\<lambda>_.
                   andThen (\<lambda>st. lift (obj_entries (get_prop (tableData st) ''cols'')) st)
                     collect_aggs))"
      by (intro keeps_andThen keeps_style_write keeps_collect_aggs)
    with False show ?thesis by simp
  qed
next
  fix ac x ac'
  show "keeps_data (\<lambda>st.
        (let cols = get_prop (tableData st) ''cols''
         in case bind_res (obj_entries ac') (\<lambda>es.
                 bind_res (map_res (\<lambda>e. in_cols cols (fst e)) es) (\<lambda>flags.
                 map_res (agg_col_of cols) (map fst (filter snd (zip es flags))))) of
              Inl e \<Rightarrow> (Inl e, st)
            | Inr acs \<Rightarrow> (Inr (), st \<lparr> aggregateColumns := acs \<rparr>)))"
    by (rule keeps_dataI) (auto simp: Let_def own_styled_def split: sum.splits)
qed

lemma keeps_buildStandardTable: "keeps_data (buildStandardTable h)"
  unfolding buildStandardTable_def
  by (intro keeps_andThen keeps_createAggregateColumnArray keeps_same) (simp split: sum.splits)

lemma keeps_transposeTable: "keeps_data (transposeTable h)"
  by (rule keeps_same) (simp add: transposeTable_def split: sum.splits)

lemma keeps_render: "keeps_data (render h)"
  unfolding render_def
proof (intro keeps_andThen)
  show "keeps_data (\<lambda>st. (Inr (), st \<lparr> shadow := None \<rparr>))"
    by (rule keeps_dataI) (simp add: own_styled_def)
next
  fix u :: unit
  have inner: "keeps_data
         (andThen (style_default ''row_buttons'' (JArr [])) (\<lambda>_.
          andThen (style_default ''row_styles'' (JArr [])) (\<lambda>_.
          andThen (\<lambda>st. lift (as_rows (get_prop (tableData st) ''rows'')) st) (\<lambda>rows.
          andThen (style_write ''expandableRows'' (JBool (hasDetailRows rows))) (\<lambda>_.
          andThen (\<lambda>st. (if transpose st then transposeTable h else buildStandardTable h) st) (\<lambda>tableEl.
          andThen (style_read ''cssType'') (\<lambda>cssType st.
            (Inr (), st \<lparr> shadow := Some (styles cssType, tableEl) \<rparr>))))))))"
  proof (intro keeps_andThen keeps_style_default keeps_style_write keeps_style_read)
    show "keeps_data (\<lambda>st. lift (as_rows (get_prop (tableData st) ''rows'')) st)"
      by (rule keeps_same) (simp add: lift_def)
  next
    show "keeps_data (\<lambda>st. (if transpose st then transposeTable h else buildStandardTable h) st)"
      using keeps_transposeTable [of h] keeps_buildStandardTable [of h]
      by (simp add: keeps_data_def)
  next
    fix tableEl cssType
    show "keeps_data (\<lambda>st. (Inr (), st \<lparr> shadow := Some (styles cssType, tableEl) \<rparr>))"
      by (rule keeps_dataI) (simp add: own_styled_def)
  qed
  show "keeps_data (\<lambda>st. if \<not> truthy (tableData st) then (Inr (), st) else
         (andThen (style_default ''row_buttons'' (JArr [])) (\<lambda>_.
          andThen (style_default ''row_styles'' (JArr [])) (\<lambda>_.
          andThen (\<lambda>st. lift (as_rows (get_prop (tableData st) ''rows'')) st) (\<lambda>rows.
          andThen (style_write ''expandableRows'' (JBool (hasDetailRows rows))) (\<lambda>_.
          andThen (\<lambda>st. (if transpose st then transposeTable h else buildStandardTable h) st) (\<lambda>tableEl.
          andThen (style_read ''cssType'') (\<lambda>cssType st.
            (Inr (), st \<lparr> shadow := Some (styles cssType, tableEl) \<rparr>)))))))) st)"
    using inner by (simp add: keeps_data_def)
qed

lemma render_keeps_data:
  "own_styled st \<Longrightarrow> tableData (snd (render h st)) = tableData st \<and> own_styled (snd (render h st))"
  using keeps_render by (rule keeps_dataD)


lemma mset_js_insert: "mset (js_insert c x xs) = add_mset x (mset xs)"
  by (induction xs) auto

lemma mset_js_sort: "mset (js_sort c xs) = mset xs"
  by (induction xs) (auto simp: js_sort_def mset_js_insert)

lemma mset_array_sort: "mset (array_sort h c xs) = mset xs"
  by (simp add: array_sort_def mset_js_sort)

lemma no_style_key: "\<not> has_key kvs ''style'' \<Longrightarrow> get_prop (JObj kvs) ''style'' = JUndef"
  by (simp add: has_key_def get_prop_def map_of_eq_None_iff [THEN iffD2])

lemma set_data_object:
  assumes "\<not> has_key kvs ''style''"
  shows "tableData (snd (set_data h (JObj kvs) st)) = JObj kvs
       \<and> own_styled (snd (set_data h (JObj kvs) st))"
proof -
  let ?st2 = "st \<lparr> style_ref := OwnStyle (cur_style st), tableData := JObj kvs \<rparr>
                \<lparr> style_ref := OwnStyle (JObj []) \<rparr>"
  let ?m = "andThen (style_default ''cssType'' DEFAULT_CSS_TYPE)
              (\<lambda>_ st3. if batchMode st3 then (Inr (), st3) else render h st3)"
  have "keeps_data (\<lambda>st3. if batchMode st3 then (Inr (), st3) else render h st3)"
    using keeps_render [of h] by (simp add: keeps_data_def)
  then have "keeps_data ?m"
    by (intro keeps_andThen keeps_style_default)
  moreover have "own_styled ?st2" by (simp add: own_styled_def)
  ultimately have "tableData (snd (?m ?st2)) = tableData ?st2 \<and> own_styled (snd (?m ?st2))"
    by (rule keeps_dataD)
  moreover have "set_data h (JObj kvs) st = ?m ?st2"
    by (simp add: set_data_def no_style_key [OF assms] nullish_def Let_def)
  ultimately show ?thesis by simp
qed

lemma sortBy_rows:
  assumes "tableData st = JObj kvs" and "own_styled st"
    and "as_rows (get_prop (JObj kvs) ''rows'') = Inr rows"
  shows "tableData (snd (sortBy h X asc st))
           = JObj (set_key kvs ''rows''
                (JArr (map JObj (sort_rows h (get_prop (JObj kvs) ''cols'') X asc rows))))"
proof -
  let ?sorted = "sort_rows h (get_prop (JObj kvs) ''cols'') X asc rows"
  let ?st1 = "st \<lparr> tableData := JObj (set_key kvs ''rows'' (JArr (map JObj ?sorted))),
                   sortedColumn := (JStr X, asc) \<rparr>"
  from assms(3) have "truthy (get_prop (JObj kvs) ''rows'')"
    by (cases "get_prop (JObj kvs) ''rows''") (auto simp: as_rows_def)
  then have "sortBy h X asc st = render h ?st1"
    using assms(1,3) by (simp add: sortBy_def opt_prop_def nullish_def the_obj_def Let_def)
  moreover have "own_styled ?st1" using assms(2) by (simp add: own_styled_def)
  ultimately show ?thesis using render_keeps_data [of ?st1 h] by simp
qed

text \<open>A two-row table and the state of a new component that has rendered it.\<close>

definition sales_fields :: obj where
  "sales_fields =
     [(''cols'', JObj [(''month'', JObj [(''type'', JStr ''text'')]),
                       (''revenue'', JObj [(''type'', JStr ''float'')])]),
      (''rows'', JArr [JObj [(''month'', JStr ''Jan''), (''revenue'', JNum (Fin 2))],
                       JObj [(''month'', JStr ''Feb''), (''revenue'', JNum (Fin 1))]])]"

definition sales_rows :: "obj list" where
  "sales_rows = [[(''month'', JStr ''Jan''), (''revenue'', JNum (Fin 2))],
                 [(''month'', JStr ''Feb''), (''revenue'', JNum (Fin 1))]]"

definition shown_comp :: comp where
  "shown_comp = snd (set_data sample_host (JObj sales_fields) new_comp)"

text \<open>
  Claim C7. For a table specification \<open>D\<close> of the data model (an object with no \<^verbatim>\<open>style\<close>
  member), the data read back after \<^verbatim>\<open>data = D\<close> is \<open>D\<close>, also after another render: the
  render works on a deep copy of the rows and writes only to the style. A sort replaces
  the rows by a permutation of them and changes nothing else; a JSON string is read back
  as the value it parses to.
\<close>

theorem data_round_trip:
  assumes "\<not> has_key kvs ''style''"
  shows "get_data (snd (set_data h (JObj kvs) st)) = JObj kvs
       \<and> get_data (snd (render h (snd (set_data h (JObj kvs) st)))) = JObj kvs
       \<and> (as_rows (get_prop (JObj kvs) ''rows'') = Inr rows \<longrightarrow>
            get_data (snd (sortBy h X asc (snd (set_data h (JObj kvs) st))))
              = JObj (set_key kvs ''rows''
                   (JArr (map JObj (sort_rows h (get_prop (JObj kvs) ''cols'') X asc rows))))
            \<and> mset (sort_rows h (get_prop (JObj kvs) ''cols'') X asc rows) = mset rows)
       \<and> (json_parse h s = Inr d \<longrightarrow> get_data (snd (set_data h (JStr s) st)) = d)"
proof (intro conjI impI)
  note after = set_data_object [OF assms, of h st]
  show "get_data (snd (set_data h (JObj kvs) st)) = JObj kvs"
    using after by (simp add: get_data_def)
  show "get_data (snd (render h (snd (set_data h (JObj kvs) st)))) = JObj kvs"
    using after render_keeps_data [of "snd (set_data h (JObj kvs) st)" h] by (simp add: get_data_def)
  show "mset (sort_rows h (get_prop (JObj kvs) ''cols'') X asc rows) = mset rows"
    by (simp add: sort_rows_def mset_array_sort)
next
  assume "as_rows (get_prop (JObj kvs) ''rows'') = Inr rows"
  with set_data_object [OF assms, of h st]
  show "get_data (snd (sortBy h X asc (snd (set_data h (JObj kvs) st))))
              = JObj (set_key kvs ''rows''
                   (JArr (map JObj (sort_rows h (get_prop (JObj kvs) ''cols'') X asc rows))))"
    by (simp add: get_data_def sortBy_rows)
next
  assume parsed: "json_parse h s = Inr d"
  let ?st1 = "st \<lparr> style_ref := OwnStyle (cur_style st), tableData := d \<rparr>"
  have "own_styled ?st1" by (simp add: own_styled_def)
  from render_keeps_data [OF this, of h] parsed
  show "get_data (snd (set_data h (JStr s) st)) = d"
    by (simp add: set_data_def get_data_def Let_def)
qed

theorem data_round_trip_witness:
  "get_data (snd (set_data sample_host (JObj sales_fields) new_comp)) = JObj sales_fields
   \<and> get_data (snd (render sample_host (snd (set_data sample_host (JObj sales_fields) new_comp))))
       = JObj sales_fields
   \<and> get_data (snd (sortBy sample_host ''revenue'' True
          (snd (set_data sample_host (JObj sales_fields) new_comp))))
       = JObj (set_key sales_fields ''rows''
            (JArr (map JObj (sort_rows sample_host (get_prop (JObj sales_fields) ''cols'')
                               ''revenue'' True sales_rows))))
   \<and> mset (sort_rows sample_host (get_prop (JObj sales_fields) ''cols'') ''revenue'' True sales_rows)
       = mset sales_rows
   \<and> get_data (snd (set_data sample_host (JStr ''{}'') new_comp)) = JObj []"
proof -
  have a: "\<not> has_key sales_fields ''style''"
    by (simp add: has_key_def sales_fields_def)
  have b: "as_rows (get_prop (JObj sales_fields) ''rows'') = Inr sales_rows"
    by (simp add: as_rows_def get_prop_def sales_fields_def sales_rows_def is_obj_def the_obj_def)
  have c: "json_parse sample_host ''{}'' = Inr (JObj [])"
    by (simp add: sample_host_def)
  from data_round_trip [OF a, of sample_host new_comp sales_rows "''revenue''" True "''{}''" "JObj []"] b c
  show ?thesis by simp
qed

text \<open>
  Claim C2. When the string assigned to \<^verbatim>\<open>data\<close> or to \<^verbatim>\<open>styleConfig\<close> is not valid JSON, the
  setter returns without rendering: the state is the one before, stored data, style and
  shadow root included, except for two messages added to the console.
\<close>

theorem invalid_json_keeps_state:
  assumes "json_parse h s = Inl e"
  shows "set_data h (JStr s) st
           = (Inr (), st \<lparr> console := console st @ [InvalidJSON ''data'' s, ParseError e] \<rparr>)
       \<and> set_styleConfig h (JStr s) st
           = (Inr (), st \<lparr> console := console st @ [InvalidJSON ''style-config'' s, ParseError e] \<rparr>)
       \<and> get_data (snd (set_data h (JStr s) st)) = get_data st
       \<and> cur_style (snd (set_data h (JStr s) st)) = cur_style st
       \<and> shadow (snd (set_data h (JStr s) st)) = shadow st
       \<and> get_data (snd (set_styleConfig h (JStr s) st)) = get_data st
       \<and> cur_style (snd (set_styleConfig h (JStr s) st)) = cur_style st
       \<and> shadow (snd (set_styleConfig h (JStr s) st)) = shadow st"
  using assms
  by (simp add: set_data_def set_styleConfig_def get_data_def cur_style_def split: style_ref.splits)

theorem invalid_json_keeps_state_witness:
  "set_data sample_host (JStr ''{oops'') shown_comp
     = (Inr (), shown_comp \<lparr> console := console shown_comp
                               @ [InvalidJSON ''data'' ''{oops'', ParseError SyntaxError] \<rparr>)
   \<and> set_styleConfig sample_host (JStr ''{oops'') shown_comp
     = (Inr (), shown_comp \<lparr> console := console shown_comp
                               @ [InvalidJSON ''style-config'' ''{oops'', ParseError SyntaxError] \<rparr>)
   \<and> get_data (snd (set_data sample_host (JStr ''{oops'') shown_comp)) = get_data shown_comp
   \<and> cur_style (snd (set_data sample_host (JStr ''{oops'') shown_comp)) = cur_style shown_comp
   \<and> shadow (snd (set_data sample_host (JStr ''{oops'') shown_comp)) = shadow shown_comp
   \<and> get_data (snd (set_styleConfig sample_host (JStr ''{oops'') shown_comp)) = get_data shown_comp
   \<and> cur_style (snd (set_styleConfig sample_host (JStr ''{oops'') shown_comp)) = cur_style shown_comp
   \<and> shadow (snd (set_styleConfig sample_host (JStr ''{oops'') shown_comp)) = shadow shown_comp"
proof -
  have "json_parse sample_host ''{oops'' = Inl SyntaxError"
    by (simp add: sample_host_def)
  from invalid_json_keeps_state [OF this, of shown_comp] show ?thesis .
qed

section \<open>Sorting by a header click\<close>

subsection \<open>The sort with a comparator\<close>

lemma set_js_insert: "set (js_insert c x xs) = insert x (set xs)"
  by (induction xs) auto

lemma set_js_sort: "set (js_sort c xs) = set xs"
  by (induction xs) (auto simp: js_sort_def set_js_insert)

lemma js_sort_Cons: "js_sort c (x # xs) = js_insert c x (js_sort c xs)"
  by (simp add: js_sort_def)

lemma js_insert_sorted:
  assumes "sorted_wrt (\<lambda>a b. c a b \<le> 0) xs"
    and total: "\<And>a b. a \<in> insert x (set xs) \<Longrightarrow> b \<in> insert x (set xs) \<Longrightarrow> 0 < c a b \<Longrightarrow> c b a \<le> 0"
    and trans: "\<And>a b d. a \<in> insert x (set xs) \<Longrightarrow> b \<in> insert x (set xs) \<Longrightarrow> d \<in> insert x (set xs)
                  \<Longrightarrow> c a b \<le> 0 \<Longrightarrow> c b d \<le> 0 \<Longrightarrow> c a d \<le> 0"
  shows "sorted_wrt (\<lambda>a b. c a b \<le> 0) (js_insert c x xs)"
  using assms
proof (induction xs)
  case Nil
  show ?case by simp
next
  case (Cons y ys)
  show ?case
  proof (cases "c x y \<le> 0")
    case True
    have "c x z \<le> 0" if "z \<in> set ys" for z
    proof -
      from Cons.prems(1) that have "c y z \<le> 0" by simp
      with True that show ?thesis using Cons.prems(3) [of x y z] by simp
    qed
    with True Cons.prems(1) show ?thesis by simp
  next
    case False
    then have "c y x \<le> 0" using Cons.prems(2) [of x y] by simp
    moreover have "sorted_wrt (\<lambda>a b. c a b \<le> 0) (js_insert c x ys)"
    proof (rule Cons.IH)
      show "sorted_wrt (\<lambda>a b. c a b \<le> 0) ys" using Cons.prems(1) by simp
    next
      fix a b assume "a \<in> insert x (set ys)" "b \<in> insert x (set ys)" "0 < c a b"
      then show "c b a \<le> 0" using Cons.prems(2) [of a b] by auto
    next
      fix a b d
      assume "a \<in> insert x (set ys)" "b \<in> insert x (set ys)" "d \<in> insert x (set ys)"
        "c a b \<le> 0" "c b d \<le> 0"
      then show "c a d \<le> 0" using Cons.prems(3) [of a b d] by auto
    qed
    ultimately show ?thesis using False Cons.prems(1) by (auto simp: set_js_insert)
  qed
qed

lemma js_sort_sorted:
  assumes total: "\<And>a b. a \<in> set xs \<Longrightarrow> b \<in> set xs \<Longrightarrow> 0 < c a b \<Longrightarrow> c b a \<le> 0"
    and trans: "\<And>a b d. a \<in> set xs \<Longrightarrow> b \<in> set xs \<Longrightarrow> d \<in> set xs
                  \<Longrightarrow> c a b \<le> 0 \<Longrightarrow> c b d \<le> 0 \<Longrightarrow> c a d \<le> 0"
  shows "sorted_wrt (\<lambda>a b. c a b \<le> 0) (js_sort c xs)"
  using assms
proof (induction xs)
  case Nil
  show ?case by (simp add: js_sort_def)
next
  case (Cons x xs)
  have ih: "sorted_wrt (\<lambda>a b. c a b \<le> 0) (js_sort c xs)"
  proof (rule Cons.IH)
    fix a b assume "a \<in> set xs" "b \<in> set xs" "0 < c a b"
    then show "c b a \<le> 0" using Cons.prems(1) [of a b] by simp
  next
    fix a b d assume "a \<in> set xs" "b \<in> set xs" "d \<in> set xs" "c a b \<le> 0" "c b d \<le> 0"
    then show "c a d \<le> 0" using Cons.prems(2) [of a b d] by simp
  qed
  show ?case
    unfolding js_sort_Cons
  proof (rule js_insert_sorted [OF ih])
    fix a b
    assume "a \<in> insert x (set (js_sort c xs))" "b \<in> insert x (set (js_sort c xs))" "0 < c a b"
    then show "c b a \<le> 0" using Cons.prems(1) [of a b] by (simp add: set_js_sort)
  next
    fix a b d
    assume "a \<in> insert x (set (js_sort c xs))" "b \<in> insert x (set (js_sort c xs))"
      "d \<in> insert x (set (js_sort c xs))" "c a b \<le> 0" "c b d \<le> 0"
    then show "c a d \<le> 0" using Cons.prems(2) [of a b d] by (simp add: set_js_sort)
  qed
qed

text \<open>Adjacent elements are in order as soon as the comparator never puts two elements each after the other.\<close>

lemma js_insert_adjacent:
  assumes "successively (\<lambda>a b. c a b \<le> 0) xs"
    and total: "\<And>a b. 0 < c a b \<Longrightarrow> c b a \<le> 0"
  shows "successively (\<lambda>a b. c a b \<le> 0) (js_insert c x xs)"
  using assms(1)
proof (induction xs)
  case Nil
  show ?case by simp
next
  case (Cons y ys)
  show ?case
  proof (cases "c x y \<le> 0")
    case True
    with Cons.prems show ?thesis by simp
  next
    case False
    then have yx: "c y x \<le> 0" using total [of x y] by simp
    from Cons.prems have "successively (\<lambda>a b. c a b \<le> 0) ys"
      by (cases ys) auto
    then have ih: "successively (\<lambda>a b. c a b \<le> 0) (js_insert c x ys)" by (rule Cons.IH)
    show ?thesis
    proof (cases ys)
      case Nil
      with False yx show ?thesis by simp
    next
      case (Cons z zs)
      with Cons.prems have "c y z \<le> 0" by simp
      with False yx ih Cons show ?thesis by auto
    qed
  qed
qed

lemma js_sort_adjacent:
  assumes "\<And>a b. 0 < c a b \<Longrightarrow> c b a \<le> 0"
  shows "successively (\<lambda>a b. c a b \<le> 0) (js_sort c xs)"
  by (induction xs) (auto simp: js_sort_def intro: js_insert_adjacent assms)

lemma successively_nth:
  "successively P xs \<Longrightarrow> Suc i < length xs \<Longrightarrow> P (xs ! i) (xs ! Suc i)"
proof (induction xs arbitrary: i)
  case Nil
  then show ?case by simp
next
  case (Cons x xs)
  then show ?case by (cases xs; cases i) auto
qed

lemma sorted_wrt_unique:
  assumes "sorted_wrt R xs" and "sorted_wrt R ys" and "mset xs = mset ys"
    and antisym: "\<And>a b. a \<in> set xs \<Longrightarrow> b \<in> set xs \<Longrightarrow> R a b \<Longrightarrow> R b a \<Longrightarrow> a = b"
  shows "xs = ys"
  using assms
proof (induction xs arbitrary: ys)
  case Nil
  from Nil.prems(3) show ?case by simp
next
  case (Cons x xs)
  from Cons.prems(3) obtain y ys' where ys: "ys = y # ys'" by (cases ys) auto
  have sets: "set (x # xs) = set ys" using Cons.prems(3) by (metis set_mset_mset)
  have "x = y"
  proof (rule ccontr)
    assume ne: "x \<noteq> y"
    with sets ys have "x \<in> set ys'" "y \<in> set xs" by auto
    with Cons.prems(1,2) ys have "R y x" "R x y" by auto
    with Cons.prems(4) [of x y] \<open>y \<in> set xs\<close> ne show False by auto
  qed
  moreover from this Cons.prems(3) ys have "mset xs = mset ys'" by simp
  moreover have "xs = ys'"
  proof (rule Cons.IH)
    show "sorted_wrt R xs" using Cons.prems(1) by simp
    show "sorted_wrt R ys'" using Cons.prems(2) ys by simp
    show "mset xs = mset ys'" by fact
    show "\<And>a b. a \<in> set xs \<Longrightarrow> b \<in> set xs \<Longrightarrow> R a b \<Longrightarrow> R b a \<Longrightarrow> a = b"
      using Cons.prems(4) by auto
  qed
  ultimately show ?case using ys by simp
qed

lemma js_sort_descending_is_reverse:
  assumes sign: "\<And>a b. a \<in> set xs \<Longrightarrow> b \<in> set xs \<Longrightarrow> (c a b < 0) = (0 < c b a)"
    and no_ties: "\<And>a b. a \<in> set xs \<Longrightarrow> b \<in> set xs \<Longrightarrow> c a b = 0 \<Longrightarrow> a = b"
    and trans: "\<And>a b d. a \<in> set xs \<Longrightarrow> b \<in> set xs \<Longrightarrow> d \<in> set xs
                  \<Longrightarrow> c a b \<le> 0 \<Longrightarrow> c b d \<le> 0 \<Longrightarrow> c a d \<le> 0"
  shows "js_sort (\<lambda>a b. - c a b) xs = rev (js_sort c xs)"
proof -
  let ?R = "\<lambda>a b. c a b \<le> 0"
  have ge: "c b a \<le> 0" if "a \<in> set xs" "b \<in> set xs" "0 \<le> c a b" for a b
    using sign [of b a] sign [of a b] that by auto
  have le: "0 \<le> c b a" if "a \<in> set xs" "b \<in> set xs" "c a b \<le> 0" for a b
    using sign [of b a] sign [of a b] that by auto
  have asc: "sorted_wrt ?R (js_sort c xs)"
  proof (rule js_sort_sorted)
    fix a b assume "a \<in> set xs" "b \<in> set xs" "0 < c a b"
    then show "c b a \<le> 0" using ge [of a b] by simp
  next
    fix a b d assume "a \<in> set xs" "b \<in> set xs" "d \<in> set xs" "c a b \<le> 0" "c b d \<le> 0"
    then show "c a d \<le> 0" by (rule trans)
  qed
  have desc: "sorted_wrt (\<lambda>a b. - c a b \<le> 0) (js_sort (\<lambda>a b. - c a b) xs)"
  proof (rule js_sort_sorted)
    fix a b assume "a \<in> set xs" "b \<in> set xs" "0 < - c a b"
    then show "- c b a \<le> 0" using le [of a b] by simp
  next
    fix a b d assume in_xs: "a \<in> set xs" "b \<in> set xs" "d \<in> set xs"
      and "- c a b \<le> 0" "- c b d \<le> 0"
    then have "c b a \<le> 0" "c d b \<le> 0" using ge [of a b] ge [of b d] by simp_all
    then have "c d a \<le> 0" using trans [of d b a] in_xs by simp
    then show "- c a d \<le> 0" using le [of d a] in_xs by simp
  qed
  have "sorted_wrt (\<lambda>a b. c b a \<le> 0) (js_sort (\<lambda>a b. - c a b) xs)"
  proof (rule sorted_wrt_mono_rel [OF _ desc])
    fix a b
    assume "a \<in> set (js_sort (\<lambda>a b. - c a b) xs)" "b \<in> set (js_sort (\<lambda>a b. - c a b) xs)"
      "- c a b \<le> 0"
    then show "c b a \<le> 0" using ge [of a b] by (simp add: set_js_sort)
  qed
  then have rev_sorted: "sorted_wrt ?R (rev (js_sort (\<lambda>a b. - c a b) xs))"
    by (simp add: sorted_wrt_rev)
  have "js_sort c xs = rev (js_sort (\<lambda>a b. - c a b) xs)"
  proof (rule sorted_wrt_unique [OF asc rev_sorted])
    show "mset (js_sort c xs) = mset (rev (js_sort (\<lambda>a b. - c a b) xs))"
      by (simp add: mset_js_sort)
  next
    fix a b
    assume "a \<in> set (js_sort c xs)" "b \<in> set (js_sort c xs)" "c a b \<le> 0" "c b a \<le> 0"
    then have "a \<in> set xs" "b \<in> set xs" "c a b = 0"
      using sign [of a b] sign [of b a] by (auto simp: set_js_sort)
    then show "a = b" by (rule no_ties)
  qed
  then show ?thesis by simp
qed

subsection \<open>Consistent comparators\<close>

lemma sort_sign_of_int:
  "(sort_sign (Fin (of_int k)) < 0) = (k < 0)" "(0 < sort_sign (Fin (of_int k))) = (0 < k)"
  "(sort_sign (Fin (of_int k)) = 0) = (k = 0)" "(sort_sign (Fin (of_int k)) \<le> 0) = (k \<le> 0)"
  by auto

lemma js_insert_cong_le:
  "(\<And>a b. (c a b \<le> 0) = (c' a b \<le> 0)) \<Longrightarrow> js_insert c x xs = js_insert c' x xs"
  by (induction xs) auto

lemma js_sort_cong_le:
  assumes "\<And>a b. (c a b \<le> 0) = (c' a b \<le> 0)"
  shows "js_sort c xs = js_sort c' xs"
  by (induction xs) (simp_all add: js_sort_def js_insert_cong_le [of c c', OF assms])

lemma consistentD:
  assumes "consistent c xs" and "a \<in> set xs" and "b \<in> set xs" and "d \<in> set xs"
  shows "sort_sign (c a a) = 0"
    and "c a b \<noteq> NaN"
    and "sort_sign (c a b) = 0 \<Longrightarrow> sort_sign (c b a) = 0"
    and "sort_sign (c a b) = 0 \<Longrightarrow> sort_sign (c b d) = 0 \<Longrightarrow> sort_sign (c a d) = 0"
    and "sort_sign (c a b) < 0 \<Longrightarrow> sort_sign (c b d) < 0 \<Longrightarrow> sort_sign (c a d) < 0"
    and "0 < sort_sign (c a b) \<Longrightarrow> 0 < sort_sign (c b d) \<Longrightarrow> 0 < sort_sign (c a d)"
  using assms unfolding consistent_def list_all_iff by blast+

lemma consistent_sign:
  assumes "consistent c xs" and a: "a \<in> set xs" and b: "b \<in> set xs"
  shows "(sort_sign (c a b) < 0) = (0 < sort_sign (c b a))"
proof
  assume lt: "sort_sign (c a b) < 0"
  show "0 < sort_sign (c b a)"
  proof (rule ccontr)
    assume "\<not> 0 < sort_sign (c b a)"
    then consider "sort_sign (c b a) < 0" | "sort_sign (c b a) = 0" by linarith
    then show False
    proof cases
      case 1
      from consistentD(5) [OF assms(1) a b a lt 1] consistentD(1) [OF assms(1) a a a]
      show False by simp
    next
      case 2
      from consistentD(3) [OF assms(1) b a a 2] lt show False by simp
    qed
  qed
next
  assume gt: "0 < sort_sign (c b a)"
  show "sort_sign (c a b) < 0"
  proof (rule ccontr)
    assume "\<not> sort_sign (c a b) < 0"
    then consider "0 < sort_sign (c a b)" | "sort_sign (c a b) = 0" by linarith
    then show False
    proof cases
      case 1
      from consistentD(6) [OF assms(1) b a b gt 1] consistentD(1) [OF assms(1) b b b]
      show False by simp
    next
      case 2
      from consistentD(3) [OF assms(1) a b b 2] gt show False by simp
    qed
  qed
qed

lemma consistent_trans:
  assumes con: "consistent c xs" and a: "a \<in> set xs" and b: "b \<in> set xs" and d: "d \<in> set xs"
    and ab: "sort_sign (c a b) \<le> 0" and bd: "sort_sign (c b d) \<le> 0"
  shows "sort_sign (c a d) \<le> 0"
proof (rule ccontr)
  assume "\<not> sort_sign (c a d) \<le> 0"
  then have ad: "0 < sort_sign (c a d)" by simp
  then have da: "sort_sign (c d a) < 0" using consistent_sign [OF con d a] by simp
  from ab consider "sort_sign (c a b) < 0" | "sort_sign (c a b) = 0" by linarith
  then show False
  proof cases
    case 1
    from consistentD(5) [OF con d a b da 1] have db: "sort_sign (c d b) < 0" .
    then have "0 < sort_sign (c b d)" using consistent_sign [OF con d b] by simp
    with bd show False by simp
  next
    case 2
    then have ba: "sort_sign (c b a) = 0" by (rule consistentD(3) [OF con a b b])
    from bd consider "sort_sign (c b d) < 0" | "sort_sign (c b d) = 0" by linarith
    then show False
    proof cases
      case 1
      from consistentD(5) [OF con b d a 1 da] ba show False by simp
    next
      case 2
      from consistentD(4) [OF con a b d \<open>sort_sign (c a b) = 0\<close> 2] ad show False by simp
    qed
  qed
qed

lemma consistent_equal:
  assumes con: "consistent c xs" and x: "x \<in> set xs" and a: "a \<in> set xs" and b: "b \<in> set xs"
    and "sort_sign (c x a) = 0" and "sort_sign (c x b) = 0"
  shows "sort_sign (c a b) = 0"
proof -
  from assms(5) have "sort_sign (c a x) = 0" by (rule consistentD(3) [OF con x a a])
  from this assms(6) show ?thesis by (rule consistentD(4) [OF con a x b])
qed

text \<open>With a consistent comparator the sort is the stable insertion sort.\<close>

lemma array_sort_consistent:
  "consistent c xs \<Longrightarrow> array_sort h c xs = js_sort (\<lambda>a b. sort_sign (c a b)) xs"
  by (simp add: array_sort_def)

lemma array_sort_sorted:
  assumes "consistent c xs"
  shows "sorted_wrt (\<lambda>a b. sort_sign (c a b) \<le> 0) (array_sort h c xs)"
  unfolding array_sort_consistent [OF assms]
proof (rule js_sort_sorted)
  fix a b assume "a \<in> set xs" "b \<in> set xs" "0 < sort_sign (c a b)"
  then show "sort_sign (c b a) \<le> 0" using consistent_sign [OF assms, of b a] by simp
next
  fix a b d
  assume "a \<in> set xs" "b \<in> set xs" "d \<in> set xs" "sort_sign (c a b) \<le> 0" "sort_sign (c b d) \<le> 0"
  then show "sort_sign (c a d) \<le> 0" by (rule consistent_trans [OF assms])
qed

lemma sorted_wrt_nth_Suc:
  "sorted_wrt P xs \<Longrightarrow> Suc i < length xs \<Longrightarrow> P (xs ! i) (xs ! Suc i)"
  by (simp add: sorted_wrt_iff_nth_less)

text \<open>Elements that compare equal keep their order.\<close>

lemma js_insert_filter:
  assumes "\<And>z. z \<in> set ys \<Longrightarrow> P x \<Longrightarrow> P z \<Longrightarrow> c x z \<le> 0"
  shows "filter P (js_insert c x ys) = (if P x then x # filter P ys else filter P ys)"
  using assms
proof (induction ys)
  case Nil
  show ?case by simp
next
  case (Cons y ys)
  show ?case
  proof (cases "c x y \<le> 0")
    case True
    then show ?thesis by simp
  next
    case False
    then have "\<not> (P x \<and> P y)" using Cons.prems [of y] by auto
    moreover have "filter P (js_insert c x ys) = (if P x then x # filter P ys else filter P ys)"
      by (rule Cons.IH) (use Cons.prems in auto)
    ultimately show ?thesis using False by auto
  qed
qed

lemma js_sort_stable:
  assumes "\<And>a b. a \<in> set xs \<Longrightarrow> b \<in> set xs \<Longrightarrow> P a \<Longrightarrow> P b \<Longrightarrow> c a b \<le> 0"
  shows "filter P (js_sort c xs) = filter P xs"
  using assms
proof (induction xs)
  case Nil
  show ?case by (simp add: js_sort_def)
next
  case (Cons x xs)
  have ih: "filter P (js_sort c xs) = filter P xs"
    by (rule Cons.IH) (use Cons.prems in auto)
  have "filter P (js_insert c x (js_sort c xs))
      = (if P x then x # filter P (js_sort c xs) else filter P (js_sort c xs))"
  proof (rule js_insert_filter)
    fix z assume "z \<in> set (js_sort c xs)" "P x" "P z"
    then show "c x z \<le> 0" using Cons.prems [of x z] by (simp add: set_js_sort)
  qed
  with ih show ?case by (simp add: js_sort_Cons)
qed

lemma array_sort_stable:
  assumes con: "consistent c xs" and x: "x \<in> set xs"
  shows "filter (\<lambda>y. sort_sign (c x y) = 0) (array_sort h c xs)
       = filter (\<lambda>y. sort_sign (c x y) = 0) xs"
  unfolding array_sort_consistent [OF con]
proof (rule js_sort_stable)
  fix a b
  assume "a \<in> set xs" "b \<in> set xs" "sort_sign (c x a) = 0" "sort_sign (c x b) = 0"
  then have "sort_sign (c a b) = 0" by (rule consistent_equal [OF con x])
  then show "sort_sign (c a b) \<le> 0" by simp
qed

lemma consistent_neg:
  assumes "consistent (\<lambda>a b. Fin (of_int (c a b))) xs"
  shows "consistent (\<lambda>a b. Fin (of_int (- c a b))) xs"
proof -
  note d = consistentD [OF assms, unfolded sort_sign_of_int]
  have r: "c a a = 0" if "a \<in> set xs" for a using d(1) [OF that that that] .
  have s: "c b a = 0" if "a \<in> set xs" "b \<in> set xs" "c a b = 0" for a b
    using d(3) [OF that(1,2) that(1) that(3)] .
  have t: "c a e = 0" if "a \<in> set xs" "b \<in> set xs" "e \<in> set xs" "c a b = 0" "c b e = 0" for a b e
    using d(4) [OF that] .
  have l: "c a e < 0" if "a \<in> set xs" "b \<in> set xs" "e \<in> set xs" "c a b < 0" "c b e < 0" for a b e
    using d(5) [OF that] .
  have g: "0 < c a e" if "a \<in> set xs" "b \<in> set xs" "e \<in> set xs" "0 < c a b" "0 < c b e" for a b e
    using d(6) [OF that] .
  show ?thesis
    unfolding consistent_def list_all_iff sort_sign_of_int
  proof (intro ballI conjI impI)
    fix a assume "a \<in> set xs"
    then show "- c a a = 0" using r by simp
  next
    fix a b show "Fin (rat_of_int (- c a b)) \<noteq> NaN" by simp
  next
    fix a b assume "a \<in> set xs" "b \<in> set xs" "- c a b = 0"
    then show "- c b a = 0" using s [of a b] by simp
  next
    fix a b e assume "a \<in> set xs" "b \<in> set xs" "e \<in> set xs" "- c a b = 0 \<and> - c b e = 0"
    then show "- c a e = 0" using t [of a b e] by simp
  next
    fix a b e assume "a \<in> set xs" "b \<in> set xs" "e \<in> set xs" "- c a b < 0 \<and> - c b e < 0"
    then show "- c a e < 0" using g [of a b e] by simp
  next
    fix a b e assume "a \<in> set xs" "b \<in> set xs" "e \<in> set xs" "0 < - c a b \<and> 0 < - c b e"
    then show "0 < - c a e" using l [of a b e] by simp
  qed
qed


text \<open>
  The rule of a column all of whose values normalise to numbers is a consistent comparator:
  the numbers that are not NaN are totally ordered.
\<close>

lemma num_lt_irrefl: "\<not> num_lt a a"
  by (cases a) auto

lemma num_lt_trans: "num_lt a b \<Longrightarrow> num_lt b d \<Longrightarrow> num_lt a d"
  by (cases a; cases b; cases d) auto

lemma num_lt_total: "a \<noteq> NaN \<Longrightarrow> b \<noteq> NaN \<Longrightarrow> \<not> num_lt a b \<Longrightarrow> \<not> num_lt b a \<Longrightarrow> a = b"
  by (cases a; cases b) auto

lemma comparator_numbers:
  assumes "normalize h ty (get_prop (JObj a) X) = KNum n"
    and "normalize h ty (get_prop (JObj b) X) = KNum m"
  shows "comparator h ty X a b = (if num_lt n m then -1 else if num_lt m n then 1 else 0)"
  using assms by (simp add: comparator_def)

lemma numeric_column_consistent:
  assumes "\<forall>r \<in> set rows. \<exists>n. normalize h ty (get_prop (JObj r) X) = KNum n \<and> n \<noteq> NaN"
  shows "consistent (\<lambda>a b. Fin (of_int (comparator h ty X a b))) rows"
proof -
  define k where "k r = (case normalize h ty (get_prop (JObj r) X) of KNum n \<Rightarrow> n | KStr s \<Rightarrow> NaN)" for r
  have key: "normalize h ty (get_prop (JObj r) X) = KNum (k r) \<and> k r \<noteq> NaN" if "r \<in> set rows" for r
    using assms that by (auto simp: k_def)
  have cmp: "comparator h ty X a b = (if num_lt (k a) (k b) then -1 else if num_lt (k b) (k a) then 1 else 0)"
    if "a \<in> set rows" "b \<in> set rows" for a b
    using key [OF that(1)] key [OF that(2)] by (simp add: comparator_numbers)
  have zero: "(comparator h ty X a b = 0) = (k a = k b)" if "a \<in> set rows" "b \<in> set rows" for a b
    using cmp [OF that] key [OF that(1)] key [OF that(2)] num_lt_total [of "k a" "k b"]
      num_lt_irrefl [of "k a"] by auto
  have less: "(comparator h ty X a b < 0) = num_lt (k a) (k b)" if "a \<in> set rows" "b \<in> set rows" for a b
    using cmp [OF that] by auto
  have greater: "(0 < comparator h ty X a b) = num_lt (k b) (k a)" if "a \<in> set rows" "b \<in> set rows" for a b
    using cmp [OF that] num_lt_trans [of "k a" "k b" "k a"] num_lt_irrefl [of "k a"] by auto
  show ?thesis
    unfolding consistent_def list_all_iff sort_sign_of_int
  proof (intro ballI conjI impI)
    fix a assume "a \<in> set rows"
    then show "comparator h ty X a a = 0" by (simp add: zero)
  next
    fix a b show "Fin (rat_of_int (comparator h ty X a b)) \<noteq> NaN" by simp
  next
    fix a b assume "a \<in> set rows" "b \<in> set rows" "comparator h ty X a b = 0"
    then show "comparator h ty X b a = 0" by (simp add: zero)
  next
    fix a b e assume "a \<in> set rows" "b \<in> set rows" "e \<in> set rows"
      "comparator h ty X a b = 0 \<and> comparator h ty X b e = 0"
    then show "comparator h ty X a e = 0" by (simp add: zero)
  next
    fix a b e assume "a \<in> set rows" "b \<in> set rows" "e \<in> set rows"
      "comparator h ty X a b < 0 \<and> comparator h ty X b e < 0"
    then show "comparator h ty X a e < 0" using num_lt_trans [of "k a" "k b" "k e"] by (simp add: less)
  next
    fix a b e assume "a \<in> set rows" "b \<in> set rows" "e \<in> set rows"
      "0 < comparator h ty X a b \<and> 0 < comparator h ty X b e"
    then show "0 < comparator h ty X a e" using num_lt_trans [of "k e" "k b" "k a"] by (simp add: greater)
  qed
qed

subsection \<open>Examples\<close>

text \<open>Two rows with the same quantity, and the two rows of the sales table with their comparison by revenue.\<close>

definition apple_row :: obj where
  "apple_row = [(''qty'', JNum (Fin 1)), (''item'', JStr ''apple'')]"

definition pear_row :: obj where
  "pear_row = [(''qty'', JNum (Fin 1)), (''item'', JStr ''pear'')]"

definition tie_rows :: "obj list" where
  "tie_rows = [apple_row, pear_row]"

definition by_qty :: "obj \<Rightarrow> obj \<Rightarrow> int" where
  "by_qty = comparator sample_host (sort_type sample_host (JObj []) ''qty'') ''qty''"

lemmas sort_eval =
  comparator_def normalize_def sort_type_def get_prop_def opt_prop_def
  nc_def nullish_def toLowerCase_def upper_letters_def lower_letters_def isArray_def is_nan_def
  col_type_defs

lemma by_qty_ties: "a \<in> set tie_rows \<Longrightarrow> b \<in> set tie_rows \<Longrightarrow> by_qty a b = 0"
  by (auto simp: tie_rows_def apple_row_def pear_row_def by_qty_def sort_eval sample_host_def)

lemma js_sort_pair: "js_sort c [x, y] = (if c x y \<le> 0 then [x, y] else [y, x])"
  by (simp add: js_sort_def)

lemma tie_rows_consistent: "consistent (\<lambda>a b. Fin (of_int (by_qty a b))) tie_rows"
  unfolding consistent_def list_all_iff sort_sign_of_int by (simp add: by_qty_ties)

lemma tie_rows_sorted:
  "sort_rows sample_host (JObj []) ''qty'' True tie_rows = tie_rows"
  "sort_rows sample_host (JObj []) ''qty'' False tie_rows = tie_rows"
proof -
  have up: "sort_rows sample_host (JObj []) ''qty'' True tie_rows
      = js_sort (\<lambda>a b. sort_sign (Fin (of_int (by_qty a b)))) tie_rows"
    using tie_rows_consistent by (simp add: sort_rows_def by_qty_def array_sort_consistent)
  have down: "sort_rows sample_host (JObj []) ''qty'' False tie_rows
      = js_sort (\<lambda>a b. sort_sign (Fin (of_int (- by_qty a b)))) tie_rows"
    using consistent_neg [OF tie_rows_consistent]
    by (simp add: sort_rows_def by_qty_def array_sort_consistent)
  have zero: "by_qty apple_row pear_row = 0"
    by (rule by_qty_ties) (simp_all add: tie_rows_def)
  show "sort_rows sample_host (JObj []) ''qty'' True tie_rows = tie_rows"
    unfolding up by (simp add: tie_rows_def js_sort_pair zero)
  show "sort_rows sample_host (JObj []) ''qty'' False tie_rows = tie_rows"
    unfolding down by (simp add: tie_rows_def js_sort_pair zero)
qed

definition jan_row :: obj where
  "jan_row = [(''month'', JStr ''Jan''), (''revenue'', JNum (Fin 2))]"

definition feb_row :: obj where
  "feb_row = [(''month'', JStr ''Feb''), (''revenue'', JNum (Fin 1))]"

definition sales_cols :: jsval where
  "sales_cols = JObj [(''month'', JObj [(''type'', JStr ''text'')]),
                      (''revenue'', JObj [(''type'', JStr ''float'')])]"

definition by_revenue :: "obj \<Rightarrow> obj \<Rightarrow> int" where
  "by_revenue = comparator sample_host (sort_type sample_host sales_cols ''revenue'') ''revenue''"

lemmas cmp_eval =
  by_revenue_def sales_cols_def jan_row_def feb_row_def comparator_def normalize_def sort_type_def
  get_prop_def opt_prop_def nc_def nullish_def toLowerCase_def upper_letters_def lower_letters_def
  isArray_def is_nan_def col_type_defs sample_host_def

lemma by_revenue_values:
  "by_revenue jan_row jan_row = 0" "by_revenue jan_row feb_row = 1"
  "by_revenue feb_row jan_row = -1" "by_revenue feb_row feb_row = 0"
  by (simp_all add: cmp_eval)

lemma jan_not_feb: "jan_row \<noteq> feb_row" "feb_row \<noteq> jan_row"
  by (simp_all add: jan_row_def feb_row_def)

lemma sales_consistent: "consistent (\<lambda>a b. Fin (of_int (by_revenue a b))) [jan_row, feb_row]"
  unfolding consistent_def list_all_iff sort_sign_of_int by (simp add: by_revenue_values)

subsection \<open>The claim\<close>

text \<open>
  Two different rows that compare equal keep their order in both directions, so the
  descending result is not the reverse of the ascending one.
\<close>

theorem descending_with_ties_not_reverse:
  "sort_rows sample_host (JObj []) ''qty'' True tie_rows = tie_rows
   \<and> sort_rows sample_host (JObj []) ''qty'' False tie_rows = tie_rows
   \<and> rev (sort_rows sample_host (JObj []) ''qty'' True tie_rows) \<noteq> sort_rows sample_host (JObj []) ''qty'' False tie_rows"
  unfolding tie_rows_sorted by (simp add: tie_rows_def apple_row_def pear_row_def)

lemma header_click_sorts:
  "col \<noteq> [] \<Longrightarrow>
     header_click h col st
       = sortBy h col (if fst (sortedColumn st) = JStr col then \<not> snd (sortedColumn st) else True) st"
  by (simp add: header_click_def)

text \<open>
  Claim C4, amended. A click on a header cell with a key that is not empty calls \<^verbatim>\<open>#sortBy\<close>
  (lemma \<open>header_click_sorts\<close>), which stores \<open>sort_rows\<close> of the rows (lemma \<open>sortBy_rows\<close>):
  a permutation of the rows in both directions. When the column's comparison rule is a
  consistent comparator for the rows, every adjacent pair of the ascending result compares
  \<open>\<le> 0\<close> under the rule and every adjacent pair of the descending result compares \<open>\<ge> 0\<close>;
  in both results the rows that compare equal to a given row are in their original order;
  and the descending result is the reverse of the ascending one when no two different
  rows compare equal.
\<close>

theorem sort_by_column:
  "mset (sort_rows h cols X True rows) = mset rows
   \<and> mset (sort_rows h cols X False rows) = mset rows
   \<and> (consistent (\<lambda>a b. Fin (of_int (comparator h (sort_type h cols X) X a b))) rows \<longrightarrow>
        (\<forall>i. Suc i < length rows \<longrightarrow>
            comparator h (sort_type h cols X) X
              (sort_rows h cols X True rows ! i) (sort_rows h cols X True rows ! Suc i) \<le> 0)
      \<and> (\<forall>i. Suc i < length rows \<longrightarrow>
            0 \<le> comparator h (sort_type h cols X) X
              (sort_rows h cols X False rows ! i) (sort_rows h cols X False rows ! Suc i))
      \<and> (\<forall>x \<in> set rows.
            filter (\<lambda>y. comparator h (sort_type h cols X) X x y = 0) (sort_rows h cols X True rows)
              = filter (\<lambda>y. comparator h (sort_type h cols X) X x y = 0) rows
          \<and> filter (\<lambda>y. comparator h (sort_type h cols X) X x y = 0) (sort_rows h cols X False rows)
              = filter (\<lambda>y. comparator h (sort_type h cols X) X x y = 0) rows)
      \<and> ((\<forall>a \<in> set rows. \<forall>b \<in> set rows.
               comparator h (sort_type h cols X) X a b = 0 \<longrightarrow> a = b)
          \<longrightarrow> sort_rows h cols X False rows = rev (sort_rows h cols X True rows)))"
proof (intro conjI impI)
  let ?c = "comparator h (sort_type h cols X) X"
  let ?up = "\<lambda>a b. Fin (of_int (?c a b))"
  let ?down = "\<lambda>a b. Fin (of_int (- ?c a b))"
  have asc: "sort_rows h cols X True rows = array_sort h ?up rows"
    by (simp add: sort_rows_def)
  have desc: "sort_rows h cols X False rows = array_sort h ?down rows"
    by (simp add: sort_rows_def)
  show "mset (sort_rows h cols X True rows) = mset rows"
    unfolding asc by (rule mset_array_sort)
  show "mset (sort_rows h cols X False rows) = mset rows"
    unfolding desc by (rule mset_array_sort)
  have len: "length (array_sort h c rows) = length rows" for c
    using mset_array_sort [of h c rows] by (metis size_mset)
  assume up: "consistent ?up rows"
  then have down: "consistent ?down rows" by (rule consistent_neg)
  show "\<forall>i. Suc i < length rows \<longrightarrow>
            ?c (sort_rows h cols X True rows ! i) (sort_rows h cols X True rows ! Suc i) \<le> 0"
  proof (intro allI impI)
    fix i assume "Suc i < length rows"
    then have "Suc i < length (array_sort h ?up rows)" by (simp add: len)
    with array_sort_sorted [OF up, of h]
    have "sort_sign (?up (array_sort h ?up rows ! i) (array_sort h ?up rows ! Suc i)) \<le> 0"
      by (rule sorted_wrt_nth_Suc)
    then show "?c (sort_rows h cols X True rows ! i) (sort_rows h cols X True rows ! Suc i) \<le> 0"
      unfolding asc sort_sign_of_int .
  qed
  show "\<forall>i. Suc i < length rows \<longrightarrow>
            0 \<le> ?c (sort_rows h cols X False rows ! i) (sort_rows h cols X False rows ! Suc i)"
  proof (intro allI impI)
    fix i assume "Suc i < length rows"
    then have "Suc i < length (array_sort h ?down rows)" by (simp add: len)
    with array_sort_sorted [OF down, of h]
    have "sort_sign (?down (array_sort h ?down rows ! i) (array_sort h ?down rows ! Suc i)) \<le> 0"
      by (rule sorted_wrt_nth_Suc)
    then have "- ?c (array_sort h ?down rows ! i) (array_sort h ?down rows ! Suc i) \<le> 0"
      unfolding sort_sign_of_int .
    then show "0 \<le> ?c (sort_rows h cols X False rows ! i) (sort_rows h cols X False rows ! Suc i)"
      unfolding desc by simp
  qed
  show "\<forall>x \<in> set rows.
            filter (\<lambda>y. ?c x y = 0) (sort_rows h cols X True rows) = filter (\<lambda>y. ?c x y = 0) rows
          \<and> filter (\<lambda>y. ?c x y = 0) (sort_rows h cols X False rows) = filter (\<lambda>y. ?c x y = 0) rows"
  proof (intro ballI conjI)
    fix x assume x: "x \<in> set rows"
    show "filter (\<lambda>y. ?c x y = 0) (sort_rows h cols X True rows) = filter (\<lambda>y. ?c x y = 0) rows"
      using array_sort_stable [OF up x, of h] unfolding asc sort_sign_of_int .
    have "filter (\<lambda>y. - ?c x y = 0) (array_sort h ?down rows) = filter (\<lambda>y. - ?c x y = 0) rows"
      using array_sort_stable [OF down x, of h] unfolding sort_sign_of_int .
    then show "filter (\<lambda>y. ?c x y = 0) (sort_rows h cols X False rows) = filter (\<lambda>y. ?c x y = 0) rows"
      unfolding desc by simp
  qed
  assume no_ties: "\<forall>a \<in> set rows. \<forall>b \<in> set rows. ?c a b = 0 \<longrightarrow> a = b"
  have "js_sort (\<lambda>a b. - ?c a b) rows = rev (js_sort ?c rows)"
  proof (rule js_sort_descending_is_reverse)
    fix a b assume "a \<in> set rows" "b \<in> set rows"
    then show "(?c a b < 0) = (0 < ?c b a)"
      using consistent_sign [OF up, of a b] unfolding sort_sign_of_int by blast
  next
    fix a b assume "a \<in> set rows" "b \<in> set rows" "?c a b = 0"
    with no_ties show "a = b" by blast
  next
    fix a b d
    assume "a \<in> set rows" "b \<in> set rows" "d \<in> set rows" "?c a b \<le> 0" "?c b d \<le> 0"
    then show "?c a d \<le> 0"
      using consistent_trans [OF up, of a b d] unfolding sort_sign_of_int by simp
  qed
  moreover have "array_sort h ?up rows = js_sort ?c rows"
    unfolding array_sort_consistent [OF up]
    by (rule js_sort_cong_le) (simp add: sort_sign_of_int)
  moreover have "array_sort h ?down rows = js_sort (\<lambda>a b. - ?c a b) rows"
    unfolding array_sort_consistent [OF down]
    by (rule js_sort_cong_le) (simp only: sort_sign_of_int)
  ultimately show "sort_rows h cols X False rows = rev (sort_rows h cols X True rows)"
    unfolding asc desc by simp
qed

theorem sort_by_column_witness:
  "consistent (\<lambda>a b. Fin (of_int (by_revenue a b))) [jan_row, feb_row]
   \<and> by_revenue (sort_rows sample_host sales_cols ''revenue'' True [jan_row, feb_row] ! 0)
              (sort_rows sample_host sales_cols ''revenue'' True [jan_row, feb_row] ! Suc 0) \<le> 0
   \<and> 0 \<le> by_revenue (sort_rows sample_host sales_cols ''revenue'' False [jan_row, feb_row] ! 0)
                    (sort_rows sample_host sales_cols ''revenue'' False [jan_row, feb_row] ! Suc 0)
   \<and> filter (\<lambda>y. by_revenue jan_row y = 0) (sort_rows sample_host sales_cols ''revenue'' True [jan_row, feb_row])
       = filter (\<lambda>y. by_revenue jan_row y = 0) [jan_row, feb_row]
   \<and> sort_rows sample_host sales_cols ''revenue'' False [jan_row, feb_row]
       = rev (sort_rows sample_host sales_cols ''revenue'' True [jan_row, feb_row])
   \<and> mset (sort_rows sample_host sales_cols ''revenue'' True [jan_row, feb_row]) = mset [jan_row, feb_row]"
proof -
  have len: "Suc 0 < length [jan_row, feb_row]" by simp
  have jan: "jan_row \<in> set [jan_row, feb_row]" by simp
  have hyp: "\<forall>a \<in> set [jan_row, feb_row]. \<forall>b \<in> set [jan_row, feb_row]. by_revenue a b = 0 \<longrightarrow> a = b"
    by (simp add: by_revenue_values jan_not_feb)
  note main = sort_by_column [of sample_host sales_cols "''revenue''" "[jan_row, feb_row]",
      folded by_revenue_def]
  note sorted = main [THEN conjunct2, THEN conjunct2, THEN mp, OF sales_consistent]
  have up: "by_revenue (sort_rows sample_host sales_cols ''revenue'' True [jan_row, feb_row] ! 0)
              (sort_rows sample_host sales_cols ''revenue'' True [jan_row, feb_row] ! Suc 0) \<le> 0"
    by (rule sorted [THEN conjunct1, rule_format, OF len])
  have down: "0 \<le> by_revenue (sort_rows sample_host sales_cols ''revenue'' False [jan_row, feb_row] ! 0)
                    (sort_rows sample_host sales_cols ''revenue'' False [jan_row, feb_row] ! Suc 0)"
    by (rule sorted [THEN conjunct2, THEN conjunct1, rule_format, OF len])
  have stable: "filter (\<lambda>y. by_revenue jan_row y = 0) (sort_rows sample_host sales_cols ''revenue'' True [jan_row, feb_row])
       = filter (\<lambda>y. by_revenue jan_row y = 0) [jan_row, feb_row]"
    by (rule sorted [THEN conjunct2, THEN conjunct2, THEN conjunct1, rule_format, OF jan, THEN conjunct1])
  have rev: "sort_rows sample_host sales_cols ''revenue'' False [jan_row, feb_row]
       = rev (sort_rows sample_host sales_cols ''revenue'' True [jan_row, feb_row])"
    by (rule sorted [THEN conjunct2, THEN conjunct2, THEN conjunct2, THEN mp, OF hyp])
  have perm: "mset (sort_rows sample_host sales_cols ''revenue'' True [jan_row, feb_row]) = mset [jan_row, feb_row]"
    by (rule main [THEN conjunct1])
  from sales_consistent up down stable rev perm show ?thesis by (intro conjI)
qed

section \<open>Grouping and subtotals\<close>

subsection \<open>Groups\<close>












subsection \<open>Sums\<close>





subsection \<open>Examples\<close>

text \<open>
  Three prepared rows with a region and an amount, grouped by region; the amount is
  summed. The last lemma shows the order in which \<^verbatim>\<open>Object.entries\<close> lists group keys:
  keys that are array indices come first, ascending, whatever the sort direction.
\<close>

definition region_cell :: "string \<Rightarrow> rat \<Rightarrow> obj" where
  "region_cell region amount =
     [(''region'', mk_cell (JStr ''text'') (JStr region) (JStr region)),
      (''amount'', mk_cell (JStr ''float'') (JNum (Fin amount)) (JStr ''n''))]"

definition region_rows :: "obj list" where
  "region_rows = [region_cell ''US'' 10, region_cell ''EU'' 5, region_cell ''US'' 20]"

definition region_levels :: "(jsval \<times> string) list" where
  "region_levels = [(JStr ''region'', ''asc'')]"



lemma region_sorted:
  "group_sort sample_host region_levels region_rows
     = [region_cell ''EU'' 5, region_cell ''US'' 10, region_cell ''US'' 20]"
  by code_simp








lemma index_2021: "is_array_index ''2021''" "dec_value ''2021'' = 2021"
  by (simp_all add: is_array_index_def dec_value_def digit_chars_def)

lemma index_2022: "is_array_index ''2022''" "dec_value ''2022'' = 2022"
  by (simp_all add: is_array_index_def dec_value_def digit_chars_def)

lemma numeric_keys_come_first:
  "own_entries [(''2022'', a), (''Total'', b), (''2021'', c)] = [(''2021'', c), (''2022'', a), (''Total'', b)]"
  by (simp add: own_entries_def index_2021 index_2022 is_array_index_def digit_chars_def)












subsection \<open>The claim\<close>





section \<open>Lazily revealed panes\<close>

subsection \<open>Opening a leaf pane\<close>

text \<open>A sequence of selections on one handler, with the events of each step.\<close>

fun open_seq :: "host \<Rightarrow> handler \<Rightarrow> string list \<Rightarrow> (js_error + handler) \<times> tab_event list list" where
  "open_seq h el [] = (Inr el, [])"
| "open_seq h el (tid # tids) =
     (case openTab h el tid of
        (Inl e, evs) \<Rightarrow> (Inl e, [evs])
      | (Inr el', evs) \<Rightarrow> (case open_seq h el' tids of (r, evss) \<Rightarrow> (r, evs # evss)))"

text \<open>Pane \<open>i\<close> is the pane found for \<open>tid\<close>, it has no child handler and it has been rendered.\<close>

definition rendered_leaf :: "handler \<Rightarrow> string \<Rightarrow> nat \<Rightarrow> bool" where
  "rendered_leaf el tid i =
     (find_pane tid (h_panes el) = Some i \<and> i < length (h_panes el)
      \<and> p_nested (h_panes el ! i) = None \<and> \<not> p_unrendered (h_panes el ! i))"

text \<open>The sibling selectors of the handler are valid: they match the panes or nothing.\<close>

definition selector_valid :: "string \<Rightarrow> bool" where
  "selector_valid hid = (sibling_selector hid = Matches \<or> sibling_selector hid = NoMatch)"

lemma find_pane_less: "find_pane k ps = Some i \<Longrightarrow> i < length ps \<and> p_key (ps ! i) = k"
  by (induction ps arbitrary: i) (auto split: if_splits)

lemma find_pane_keys: "map p_key ps = map p_key qs \<Longrightarrow> find_pane k ps = find_pane k qs"
proof (induction ps arbitrary: qs)
  case Nil
  then show ?case by simp
next
  case (Cons p ps)
  then obtain q qs' where "qs = q # qs'" by (cases qs) auto
  with Cons show ?case by auto
qed

lemma hide_fields [simp]:
  "p_key (hide p) = p_key p" "p_unrendered (hide p) = p_unrendered p"
  "p_nested (hide p) = p_nested p" "p_tabSpec (hide p) = p_tabSpec p"
  "p_shown (hide p) = False" "p_active (hide p) = False"
  by (simp_all add: hide_def)

text \<open>
  The panes after a selection: those that the selector matches are hidden, and pane \<open>i\<close> is
  replaced.
\<close>

definition selected :: "string \<Rightarrow> pane list \<Rightarrow> nat \<Rightarrow> pane \<Rightarrow> pane list" where
  "selected hid panes i q = (if sibling_selector hid = Matches then map hide panes else panes) [i := q]"

lemma map_selected:
  assumes "i < length ps" and "f q = f (ps ! i)" and "\<And>p. f (hide p) = f p"
  shows "map f (selected hid ps i q) = map f ps"
proof (rule nth_equalityI)
  show "length (map f (selected hid ps i q)) = length (map f ps)" by (simp add: selected_def)
next
  fix j assume "j < length (map f (selected hid ps i q))"
  then have j: "j < length ps" by (simp add: selected_def split: if_splits)
  show "map f (selected hid ps i q) ! j = map f ps ! j"
  proof (cases "j = i")
    case True
    with j assms(2) show ?thesis by (simp add: selected_def)
  next
    case False
    with j assms(3) show ?thesis by (simp add: selected_def)
  qed
qed

lemma selected_nth:
  "i < length ps \<Longrightarrow> selected hid ps i q ! i = q"
  "j \<noteq> i \<Longrightarrow> j < length ps \<Longrightarrow> p_nested (selected hid ps i q ! j) = p_nested (ps ! j)"
  "j \<noteq> i \<Longrightarrow> j < length ps \<Longrightarrow> p_unrendered (selected hid ps i q ! j) = p_unrendered (ps ! j)"
  "length (selected hid ps i q) = length ps"
  by (simp_all add: selected_def)

text \<open>What a selection that completes has done.\<close>

lemma openTab_shape:
  assumes "openTab h (Handler hid path td panes) tid = (Inr el', evs)"
  shows "selector_valid hid"
    and "\<exists>i q. find_pane tid panes = Some i \<and> el' = Handler hid path td (selected hid panes i q)
           \<and> p_key q = p_key (panes ! i) \<and> p_shown q \<and> p_active q
           \<and> p_tabSpec q = p_tabSpec (panes ! i)
           \<and> (p_nested q = None) = (p_nested (panes ! i) = None)
           \<and> (p_nested (panes ! i) = None \<longrightarrow>
                 \<not> p_unrendered q
                 \<and> evs = (if p_unrendered (panes ! i)
                          then [\<lparr> ev_path = the path, ev_tabID = tid, ev_tabSpec = p_tabSpec (panes ! i) \<rparr>]
                          else [])
                 \<and> (p_unrendered (panes ! i) \<longrightarrow> path \<noteq> None))"
proof -
  from assms show valid: "selector_valid hid"
    by (cases "sibling_selector hid") (simp_all add: selector_valid_def)
  from assms valid obtain i where i: "find_pane tid panes = Some i"
    by (cases "sibling_selector hid") (auto simp: selector_valid_def split: option.splits)
  have run: "openTab h (Handler hid path td panes) tid =
      (let p = panes ! i;
           p1 = Pane (p_key p) True True (p_unrendered p) (p_tabSpec p) (p_nested p);
           done = (\<lambda>q. Handler hid path td (selected hid panes i q))
       in case p_nested p of
            Some nh \<Rightarrow>
              (case h_tabData nh of
                 [] \<Rightarrow> (Inr (done p1), [])
               | firstSpec # _ \<Rightarrow>
                   if \<not> truthy firstSpec then (Inr (done p1), [])
                   else (case leaf_id h firstSpec of
                           Inl e \<Rightarrow> (Inl e, [])
                         | Inr leaf \<Rightarrow>
                             (case openTab h nh leaf of
                                (Inl e, evs) \<Rightarrow> (Inl e, evs)
                              | (Inr nh', evs) \<Rightarrow>
                                  (Inr (done (Pane (p_key p) True True (p_unrendered p)
                                                (p_tabSpec p) (Some nh'))), evs))))
          | None \<Rightarrow>
              (case populate path tid p1 of
                 (Inl e, evs) \<Rightarrow> (Inl e, evs)
               | (Inr p2, evs) \<Rightarrow> (Inr (done p2), evs)))"
    using valid i by (cases "sibling_selector hid") (simp_all add: selector_valid_def selected_def)
  show "\<exists>i q. find_pane tid panes = Some i \<and> el' = Handler hid path td (selected hid panes i q)
           \<and> p_key q = p_key (panes ! i) \<and> p_shown q \<and> p_active q
           \<and> p_tabSpec q = p_tabSpec (panes ! i)
           \<and> (p_nested q = None) = (p_nested (panes ! i) = None)
           \<and> (p_nested (panes ! i) = None \<longrightarrow>
                 \<not> p_unrendered q
                 \<and> evs = (if p_unrendered (panes ! i)
                          then [\<lparr> ev_path = the path, ev_tabID = tid, ev_tabSpec = p_tabSpec (panes ! i) \<rparr>]
                          else [])
                 \<and> (p_unrendered (panes ! i) \<longrightarrow> path \<noteq> None))"
    using assms i unfolding run
    by (auto simp: Let_def populate_def split: option.splits list.splits if_splits sum.splits prod.splits)
qed

lemma openTab_keys:
  "openTab h el tid = (Inr el', evs) \<Longrightarrow>
     map p_key (h_panes el') = map p_key (h_panes el)
     \<and> map (\<lambda>p. p_nested p = None) (h_panes el') = map (\<lambda>p. p_nested p = None) (h_panes el)
     \<and> h_tabData el' = h_tabData el \<and> h_id el' = h_id el \<and> h_path el' = h_path el"
proof (cases el)
  case (Handler hid path td panes)
  assume run: "openTab h el tid = (Inr el', evs)"
  from openTab_shape(2) [OF run [unfolded Handler]] obtain i q where
    i: "find_pane tid panes = Some i" and el': "el' = Handler hid path td (selected hid panes i q)"
    and q: "p_key q = p_key (panes ! i)" "(p_nested q = None) = (p_nested (panes ! i) = None)"
    by (elim exE conjE) simp
  note il = find_pane_less [OF i]
  have "map p_key (selected hid panes i q) = map p_key panes"
    using il q(1) by (intro map_selected) simp_all
  moreover have "map (\<lambda>p. p_nested p = None) (selected hid panes i q)
      = map (\<lambda>p. p_nested p = None) panes"
    using il q(2) by (intro map_selected) simp_all
  ultimately show ?thesis by (simp add: el' Handler)
qed

lemma rendered_leaf_kept:
  assumes "rendered_leaf el tid i" and "openTab h el t = (Inr el', evs)"
  shows "rendered_leaf el' tid i \<and> (t = tid \<longrightarrow> evs = [])"
proof (cases el)
  case (Handler hid path td panes)
  from assms(1) have i: "find_pane tid panes = Some i" "i < length panes"
    "p_nested (panes ! i) = None" "\<not> p_unrendered (panes ! i)"
    by (simp_all add: rendered_leaf_def Handler)
  from openTab_shape(2) [OF assms(2) [unfolded Handler]] obtain j q where
    j: "find_pane t panes = Some j" and el': "el' = Handler hid path td (selected hid panes j q)"
    and leaf: "p_nested (panes ! j) = None \<longrightarrow>
                 \<not> p_unrendered q
                 \<and> evs = (if p_unrendered (panes ! j)
                          then [\<lparr> ev_path = the path, ev_tabID = t, ev_tabSpec = p_tabSpec (panes ! j) \<rparr>]
                          else [])"
    and nested: "(p_nested q = None) = (p_nested (panes ! j) = None)"
    by (elim exE conjE) simp
  note jl = find_pane_less [OF j]
  note keys = openTab_keys [OF assms(2)]
  have found: "find_pane tid (h_panes el') = Some i"
    using find_pane_keys [of "h_panes el'" "h_panes el" tid] keys i(1) by (simp add: Handler)
  have len: "length (h_panes el') = length panes"
    by (simp add: el' selected_nth)
  show ?thesis
  proof (cases "j = i")
    case True
    with j i(1) find_pane_less [OF i(1)] jl have t: "t = tid" by simp
    from True leaf nested i have "\<not> p_unrendered q" "p_nested q = None" "evs = []" by simp_all
    with found i(2) True show ?thesis by (simp add: rendered_leaf_def el' selected_nth)
  next
    case False
    then have "t \<noteq> tid" using i(1) j by auto
    from False i have "p_nested (h_panes el' ! i) = None" "\<not> p_unrendered (h_panes el' ! i)"
      by (simp_all add: el' selected_nth)
    with found len i(2) \<open>t \<noteq> tid\<close> show ?thesis by (simp add: rendered_leaf_def)
  qed
qed

lemma open_seq_rendered_leaf:
  assumes "rendered_leaf el tid i" and "open_seq h el tids = (Inr el', evss)"
  shows "rendered_leaf el' tid i \<and> length evss = length tids
       \<and> (\<forall>k < length tids. tids ! k = tid \<longrightarrow> evss ! k = [])"
  using assms
proof (induction tids arbitrary: el evss)
  case Nil
  then show ?case by simp
next
  case (Cons t tids)
  from Cons.prems(2) obtain el1 evs evss1 where
    step: "openTab h el t = (Inr el1, evs)" and rest: "open_seq h el1 tids = (Inr el', evss1)"
    and evss: "evss = evs # evss1"
    by (auto split: prod.splits sum.splits)
  from rendered_leaf_kept [OF Cons.prems(1) step]
  have kept: "rendered_leaf el1 tid i" and quiet: "t = tid \<longrightarrow> evs = []" by simp_all
  from Cons.IH [OF kept rest]
  have ih: "rendered_leaf el' tid i" "length evss1 = length tids"
    "\<forall>k < length tids. tids ! k = tid \<longrightarrow> evss1 ! k = []" by simp_all
  have "(t # tids) ! k = tid \<longrightarrow> evss ! k = []" if "k < length (t # tids)" for k
    using that quiet ih(3) evss by (cases k) auto
  with ih(1,2) evss show ?case by simp
qed

lemma first_open_of_leaf:
  assumes "find_pane tid (h_panes el) = Some i" and "p_nested (h_panes el ! i) = None"
    and "p_unrendered (h_panes el ! i)" and "h_path el = Some pth"
    and "selector_valid (h_id el)"
  shows "\<exists>el'. openTab h el tid =
            (Inr el', [\<lparr> ev_path = pth, ev_tabID = tid, ev_tabSpec = p_tabSpec (h_panes el ! i) \<rparr>])
          \<and> rendered_leaf el' tid i"
proof (cases el)
  case (Handler hid path td panes)
  let ?q = "Pane (p_key (panes ! i)) True True False (p_tabSpec (panes ! i)) None"
  let ?el' = "Handler hid path td (selected hid panes i ?q)"
  from assms have i: "find_pane tid panes = Some i" "p_nested (panes ! i) = None"
    "p_unrendered (panes ! i)" "path = Some pth" "selector_valid hid"
    by (simp_all add: Handler)
  note il = find_pane_less [OF i(1)]
  have run: "openTab h el tid =
      (Inr ?el', [\<lparr> ev_path = pth, ev_tabID = tid, ev_tabSpec = p_tabSpec (panes ! i) \<rparr>])"
    unfolding Handler using i
    by (cases "sibling_selector hid") (simp_all add: selector_valid_def selected_def Let_def populate_def)
  have "map p_key (selected hid panes i ?q) = map p_key panes"
    using il by (intro map_selected) simp_all
  then have "find_pane tid (selected hid panes i ?q) = Some i"
    using find_pane_keys [of "selected hid panes i ?q" panes tid] i(1) by simp
  with il have "rendered_leaf ?el' tid i" by (simp add: rendered_leaf_def selected_nth)
  with run show ?thesis by (auto simp: Handler)
qed

text \<open>
  Without a path that parses, the first selection of a leaf throws; with an invalid sibling
  selector every selection throws before anything is dispatched.
\<close>

lemma first_open_needs_path:
  assumes "find_pane tid (h_panes el) = Some i" and "p_nested (h_panes el ! i) = None"
    and "p_unrendered (h_panes el ! i)" and "h_path el = None" and "selector_valid (h_id el)"
  shows "openTab h el tid = (Inl SyntaxError, [])"
proof (cases el)
  case (Handler hid path td panes)
  with assms show ?thesis
    by (cases "sibling_selector hid") (simp_all add: selector_valid_def Let_def populate_def)
qed

lemma invalid_selector_throws:
  "sibling_selector (h_id el) = Invalid \<Longrightarrow> openTab h el tid = (Inl DomSyntaxError, [])"
  by (cases el) simp

subsection \<open>Toggling a detail row\<close>

text \<open>A sequence of clicks on toggle buttons of one table body, with the events of each click.\<close>

fun toggle_seq :: "tr list \<Rightarrow> nat list \<Rightarrow> (js_error + tr list) \<times> jsval list list" where
  "toggle_seq body [] = (Inr body, [])"
| "toggle_seq body (j # js) =
     (case toggle_click body j of
        Inl e \<Rightarrow> (Inl e, [[]])
      | Inr (body', caret, evs) \<Rightarrow>
          (case toggle_seq body' js of (r, evss) \<Rightarrow> (r, evs # evss)))"

text \<open>A row without its visibility: what was built into it.\<close>

fun tr_content :: "tr \<Rightarrow> tr" where
  "tr_content (DataTr cells t) = DataTr cells t"
| "tr_content (DetailTr hidden nested other) = DetailTr True nested other"

lemma toggle_only_flips:
  assumes "toggle_click body j = Inr (body', caret, evs)"
  shows "evs = []"
    and "\<exists>hidden nested other. body ! Suc j = DetailTr hidden nested other
           \<and> body' = body [Suc j := DetailTr (\<not> hidden) nested other] \<and> caret = hidden"
  using assms by (auto simp: toggle_click_def split: if_splits tr.splits)

lemma toggle_keeps_content:
  assumes "toggle_click body j = Inr (body', caret, evs)"
  shows "map tr_content body' = map tr_content body"
proof -
  from assms have j: "Suc j < length body"
    by (auto simp: toggle_click_def split: if_splits)
  from toggle_only_flips(2) [OF assms] obtain hidden nested other where
    at: "body ! Suc j = DetailTr hidden nested other"
    and body': "body' = body [Suc j := DetailTr (\<not> hidden) nested other]" by blast
  have "map tr_content body' = (map tr_content body) [Suc j := tr_content (body ! Suc j)]"
    unfolding body' at by (simp add: map_update)
  also have "\<dots> = map tr_content body"
    using j by (simp add: list_update_same_conv)
  finally show ?thesis .
qed

lemma toggle_seq_quiet:
  assumes "toggle_seq body js = (Inr body', evss)"
  shows "map tr_content body' = map tr_content body \<and> length evss = length js
       \<and> (\<forall>k < length js. evss ! k = [])"
  using assms
proof (induction js arbitrary: body evss)
  case Nil
  then show ?case by simp
next
  case (Cons j js)
  from Cons.prems obtain body1 caret evs evss1 where
    step: "toggle_click body j = Inr (body1, caret, evs)"
    and rest: "toggle_seq body1 js = (Inr body', evss1)" and evss: "evss = evs # evss1"
    by (auto split: sum.splits prod.splits)
  from Cons.IH [OF rest] have ih: "map tr_content body' = map tr_content body1"
    "length evss1 = length js" "\<forall>k < length js. evss1 ! k = []" by simp_all
  have "evss ! k = []" if "k < length (j # js)" for k
    using that toggle_only_flips(1) [OF step] ih(3) evss by (cases k) auto
  with ih(1,2) evss toggle_keeps_content [OF step] show ?case by simp
qed

text \<open>
  A row with detail content: when the rows of a body have been built, the detail row is
  there with its content, hidden, and a nested table has been given its data and has
  rendered.
\<close>

lemma detail_row_is_built:
  assumes "hasDetail row" and "row_trs h cols [row] = Inr trs"
  shows "trs = [buildDataRow row cols,
                DetailTr True
                  (if truthy (get_prop (JObj row) ''_DETAILS_TABLE_'')
                   then get_prop (JObj row) ''_DETAILS_TABLE_'' else JUndef)
                  (if truthy (get_prop (JObj row) ''_DETAILS_OTHER_'')
                   then get_prop (JObj row) ''_DETAILS_OTHER_'' else JUndef)]"
    and "truthy (get_prop (JObj row) ''_DETAILS_TABLE_'')
           \<Longrightarrow> nested_table h (get_prop (JObj row) ''_DETAILS_TABLE_'') = Inr ()"
  using assms
  by (auto simp: row_trs_def buildDetailRow_def bind_res_def Let_def split: sum.splits if_splits)

subsection \<open>Examples\<close>

text \<open>
  A handler with two leaf tabs as \<^verbatim>\<open>_renderTabs\<close> leaves it (the first tab open and
  rendered), the same handler after tab B was opened, a table row with a detail payload
  and one with a nested table.
\<close>

definition root_path :: jsval where "root_path = JArr [JStr ''root'']"

definition tab_a :: jsval where "tab_a = JObj [(''title'', JStr ''A'')]"
definition tab_b :: jsval where "tab_b = JObj [(''title'', JStr ''B'')]"

definition flat_el :: handler where
  "flat_el = Handler ''root'' (Some root_path) [tab_a, tab_b]
               [Pane ''A'' True True False tab_a None, Pane ''B'' False False True tab_b None]"

definition flat_el_b :: handler where
  "flat_el_b = Handler ''root'' (Some root_path) [tab_a, tab_b]
                 [Pane ''A'' False False False tab_a None, Pane ''B'' True True False tab_b None]"

lemma root_selector: "sibling_selector ''root'' = Matches"
  by code_simp

lemma flat_el_rendered:
  "renderTabs sample_host False ''root'' (Some root_path) [tab_a, tab_b]
     = (Inr flat_el, [\<lparr> ev_path = root_path, ev_tabID = ''A'', ev_tabSpec = tab_a \<rparr>])"
  "renderTabs sample_host True ''root'' (Some root_path) [tab_a, tab_b]
     = (Inr flat_el, [\<lparr> ev_path = root_path, ev_tabID = ''A'', ev_tabSpec = tab_a \<rparr>])"
  by code_simp+

lemma flat_el_opens:
  "open_seq sample_host flat_el_b [''A'', ''B'', ''A'', ''B''] = (Inr flat_el_b, [[], [], [], []])"
  by code_simp

definition note_row :: obj where
  "note_row = [(''name'', mk_cell (JStr ''text'') (JStr ''n1'') (JStr ''n1'')),
               (''_DETAILS_OTHER_'', JObj [(''note'', JStr ''late'')])]"

definition name_cols :: obj where
  "name_cols = [(''name'', JObj [(''type'', JStr ''text'')])]"

definition note_body :: "tr list" where
  "note_body = [DataTr [mk_cell (JStr ''text'') (JStr ''n1'') (JStr ''n1'')] True,
                DetailTr True JUndef (JObj [(''note'', JStr ''late'')])]"

definition note_body_open :: "tr list" where
  "note_body_open = [DataTr [mk_cell (JStr ''text'') (JStr ''n1'') (JStr ''n1'')] True,
                     DetailTr False JUndef (JObj [(''note'', JStr ''late'')])]"

lemma note_row_built: "row_trs sample_host name_cols [note_row] = Inr note_body"
  by (simp add: row_trs_def buildDataRow_def buildDetailRow_def hasDetail_def bind_res_def
      note_row_def name_cols_def note_body_def get_prop_def nc_def nullish_def mk_cell_def)

lemma note_body_toggled: "toggle_click note_body 0 = Inr (note_body_open, True, [])"
  by (simp add: toggle_click_def note_body_def note_body_open_def)

lemma note_body_toggles:
  "toggle_seq note_body [0, 0, 0] = (Inr note_body_open, [[], [], []])"
  by (simp add: toggle_click_def note_body_def note_body_open_def)

definition items_row :: obj where
  "items_row = [(''name'', mk_cell (JStr ''text'') (JStr ''n2'') (JStr ''n2'')),
                (''_DETAILS_TABLE_'', JObj [(''rows'', JArr [])])]"

definition items_body :: "tr list" where
  "items_body = [DataTr [mk_cell (JStr ''text'') (JStr ''n2'') (JStr ''n2'')] True,
                 DetailTr True (JObj [(''rows'', JArr [])]) JUndef]"

lemma items_row_built: "row_trs sample_host name_cols [items_row] = Inr items_body"
  by (simp add: row_trs_def buildDataRow_def buildDetailRow_def hasDetail_def bind_res_def
      items_row_def name_cols_def items_body_def get_prop_def nc_def nullish_def mk_cell_def
      sample_host_def)

subsection \<open>The claim\<close>

text \<open>
  The first reveal of a detail row dispatches no event: the detail row is built with its
  content next to its data row, and the toggle only makes it visible.
\<close>

theorem detail_toggle_fires_nothing:
  "row_trs sample_host name_cols [note_row]
     = Inr [DataTr [mk_cell (JStr ''text'') (JStr ''n1'') (JStr ''n1'')] True,
            DetailTr True JUndef (JObj [(''note'', JStr ''late'')])]
   \<and> toggle_click [DataTr [mk_cell (JStr ''text'') (JStr ''n1'') (JStr ''n1'')] True,
                    DetailTr True JUndef (JObj [(''note'', JStr ''late'')])] 0
     = Inr ([DataTr [mk_cell (JStr ''text'') (JStr ''n1'') (JStr ''n1'')] True,
             DetailTr False JUndef (JObj [(''note'', JStr ''late'')])], True, [])"
  by (simp add: row_trs_def buildDataRow_def buildDetailRow_def hasDetail_def toggle_click_def
      bind_res_def note_row_def name_cols_def get_prop_def nc_def nullish_def mk_cell_def)

text \<open>
  Claim C6, amended. On a tab handler whose \<^verbatim>\<open>data-path\<close> attribute parses and whose id
  gives valid sibling selectors, the first \<^verbatim>\<open>openTab\<close> of a tab pane that has no child
  handler and still carries the \<^verbatim>\<open>unrendered\<close> marker dispatches exactly one \<^verbatim>\<open>renderTab\<close>
  event, with the handler's path, the tab id and the tab's specification, and removes the
  marker. Once the marker is removed, no later selection of that pane in any sequence of
  selections on the handler dispatches an event, and the marker stays removed. A detail
  row of the table is not rendered lazily: when the rows have been built the detail row
  holds its content, a nested table has been given its data and has rendered, and no
  sequence of clicks on the toggles dispatches an event or changes anything but the
  visibility of detail rows.
\<close>

theorem leaf_pane_event_once:
  "(find_pane tid (h_panes el) = Some i \<and> p_nested (h_panes el ! i) = None
      \<and> p_unrendered (h_panes el ! i) \<and> h_path el = Some pth \<and> selector_valid (h_id el)
    \<longrightarrow> (\<exists>el'. openTab h el tid =
            (Inr el', [\<lparr> ev_path = pth, ev_tabID = tid, ev_tabSpec = p_tabSpec (h_panes el ! i) \<rparr>])
          \<and> rendered_leaf el' tid i))
   \<and> (rendered_leaf el tid i \<and> open_seq h el tids = (Inr el2, evss)
    \<longrightarrow> rendered_leaf el2 tid i \<and> length evss = length tids
        \<and> (\<forall>k < length tids. tids ! k = tid \<longrightarrow> evss ! k = []))
   \<and> (hasDetail row \<and> row_trs h cols [row] = Inr trs
    \<longrightarrow> trs = [buildDataRow row cols,
               DetailTr True
                 (if truthy (get_prop (JObj row) ''_DETAILS_TABLE_'')
                  then get_prop (JObj row) ''_DETAILS_TABLE_'' else JUndef)
                 (if truthy (get_prop (JObj row) ''_DETAILS_OTHER_'')
                  then get_prop (JObj row) ''_DETAILS_OTHER_'' else JUndef)]
        \<and> (truthy (get_prop (JObj row) ''_DETAILS_TABLE_'')
             \<longrightarrow> nested_table h (get_prop (JObj row) ''_DETAILS_TABLE_'') = Inr ()))
   \<and> (toggle_seq body js = (Inr body', clicks)
    \<longrightarrow> map tr_content body' = map tr_content body \<and> length clicks = length js
        \<and> (\<forall>k < length js. clicks ! k = []))"
proof (intro conjI impI)
  assume "find_pane tid (h_panes el) = Some i \<and> p_nested (h_panes el ! i) = None
      \<and> p_unrendered (h_panes el ! i) \<and> h_path el = Some pth \<and> selector_valid (h_id el)"
  then show "\<exists>el'. openTab h el tid =
            (Inr el', [\<lparr> ev_path = pth, ev_tabID = tid, ev_tabSpec = p_tabSpec (h_panes el ! i) \<rparr>])
          \<and> rendered_leaf el' tid i"
    using first_open_of_leaf [of tid el i pth h] by blast
next
  assume a: "rendered_leaf el tid i \<and> open_seq h el tids = (Inr el2, evss)"
  then have r: "rendered_leaf el tid i" and s: "open_seq h el tids = (Inr el2, evss)" by simp_all
  note later = open_seq_rendered_leaf [OF r s]
  from later show "rendered_leaf el2 tid i" by (rule conjunct1)
  from later show "length evss = length tids" by (rule conjunct2 [THEN conjunct1])
  from later show "\<forall>k < length tids. tids ! k = tid \<longrightarrow> evss ! k = []"
    by (rule conjunct2 [THEN conjunct2])
next
  assume a: "hasDetail row \<and> row_trs h cols [row] = Inr trs"
  then have d: "hasDetail row" and r: "row_trs h cols [row] = Inr trs" by simp_all
  show "trs = [buildDataRow row cols,
               DetailTr True
                 (if truthy (get_prop (JObj row) ''_DETAILS_TABLE_'')
                  then get_prop (JObj row) ''_DETAILS_TABLE_'' else JUndef)
                 (if truthy (get_prop (JObj row) ''_DETAILS_OTHER_'')
                  then get_prop (JObj row) ''_DETAILS_OTHER_'' else JUndef)]"
    by (rule detail_row_is_built(1) [OF d r])
  show "nested_table h (get_prop (JObj row) ''_DETAILS_TABLE_'') = Inr ()"
    if "truthy (get_prop (JObj row) ''_DETAILS_TABLE_'')"
    by (rule detail_row_is_built(2) [OF d r that])
next
  assume s: "toggle_seq body js = (Inr body', clicks)"
  note quiet = toggle_seq_quiet [OF s]
  from quiet show "map tr_content body' = map tr_content body" by (rule conjunct1)
  from quiet show "length clicks = length js" by (rule conjunct2 [THEN conjunct1])
  from quiet show "\<forall>k < length js. clicks ! k = []" by (rule conjunct2 [THEN conjunct2])
qed


theorem leaf_pane_event_once_witness:
  "(\<exists>el'. openTab sample_host flat_el ''B''
            = (Inr el', [\<lparr> ev_path = root_path, ev_tabID = ''B'',
                            ev_tabSpec = p_tabSpec (h_panes flat_el ! 1) \<rparr>])
          \<and> rendered_leaf el' ''B'' 1)
   \<and> rendered_leaf flat_el_b ''B'' 1
   \<and> open_seq sample_host flat_el_b [''A'', ''B'', ''A'', ''B''] = (Inr flat_el_b, [[], [], [], []])
   \<and> [[], [], [], []] ! 1 = ([]::tab_event list)
   \<and> hasDetail items_row
   \<and> items_body = [buildDataRow items_row name_cols, DetailTr True (JObj [(''rows'', JArr [])]) JUndef]
   \<and> nested_table sample_host (JObj [(''rows'', JArr [])]) = Inr ()
   \<and> toggle_seq note_body [0, 0, 0] = (Inr note_body_open, [[], [], []])
   \<and> map tr_content note_body_open = map tr_content note_body
   \<and> [[], [], []] ! 2 = ([]::jsval list)"
proof -
  have first: "find_pane ''B'' (h_panes flat_el) = Some 1 \<and> p_nested (h_panes flat_el ! 1) = None
      \<and> p_unrendered (h_panes flat_el ! 1) \<and> h_path flat_el = Some root_path
      \<and> selector_valid (h_id flat_el)"
    by (simp add: flat_el_def selector_valid_def root_selector)
  have leaf: "rendered_leaf flat_el_b ''B'' 1"
    by (simp add: rendered_leaf_def flat_el_b_def)
  have later: "rendered_leaf flat_el_b ''B'' 1
      \<and> open_seq sample_host flat_el_b [''A'', ''B'', ''A'', ''B''] = (Inr flat_el_b, [[], [], [], []])"
    using leaf flat_el_opens by simp
  have nested: "get_prop (JObj items_row) ''_DETAILS_TABLE_'' = JObj [(''rows'', JArr [])]"
    "get_prop (JObj items_row) ''_DETAILS_OTHER_'' = JUndef"
    by (simp_all add: items_row_def get_prop_def)
  have detail: "hasDetail items_row"
    by (simp add: hasDetail_def nested)
  have built: "hasDetail items_row \<and> row_trs sample_host name_cols [items_row] = Inr items_body"
    using detail items_row_built by simp
  note main = leaf_pane_event_once [where tid = "''B''" and el = flat_el and i = 1
      and pth = root_path and h = sample_host and row = items_row and cols = name_cols
      and trs = items_body and body = note_body and js = "[0, 0, 0]"
      and body' = note_body_open and clicks = "[[], [], []]"]
  note again = leaf_pane_event_once [where tid = "''B''" and el = flat_el_b and i = 1
      and h = sample_host and tids = "[''A'', ''B'', ''A'', ''B'']"
      and ?el2.0 = flat_el_b and evss = "[[], [], [], []]"]
  have c1: "\<exists>el'. openTab sample_host flat_el ''B''
            = (Inr el', [\<lparr> ev_path = root_path, ev_tabID = ''B'',
                            ev_tabSpec = p_tabSpec (h_panes flat_el ! 1) \<rparr>])
          \<and> rendered_leaf el' ''B'' 1"
    by (rule main [THEN conjunct1, THEN mp, OF first])
  have c2: "rendered_leaf flat_el_b ''B'' 1
        \<and> length [[], [], [], []::tab_event list] = length [''A'', ''B'', ''A'', ''B'']
        \<and> (\<forall>k < length [''A'', ''B'', ''A'', ''B'']. [''A'', ''B'', ''A'', ''B''] ! k = ''B''
              \<longrightarrow> [[], [], [], []] ! k = ([]::tab_event list))"
    by (rule again [THEN conjunct2, THEN conjunct1, THEN mp, OF later])
  have k: "(1::nat) < length [''A'', ''B'', ''A'', ''B'']" "[''A'', ''B'', ''A'', ''B''] ! 1 = ''B''"
    by simp_all
  have c2c: "[[], [], [], []] ! 1 = ([]::tab_event list)"
    by (rule c2 [THEN conjunct2, THEN conjunct2, rule_format, OF k])
  note c3 = main [THEN conjunct2, THEN conjunct2, THEN conjunct1, THEN mp, OF built,
      unfolded nested]
  have c3a: "items_body = [buildDataRow items_row name_cols,
                           DetailTr True (JObj [(''rows'', JArr [])]) JUndef]"
    using c3 [THEN conjunct1] by simp
  have c3b: "nested_table sample_host (JObj [(''rows'', JArr [])]) = Inr ()"
    using c3 [THEN conjunct2] by simp
  have c4: "map tr_content note_body_open = map tr_content note_body
        \<and> length [[], [], []::jsval list] = length [0::nat, 0, 0]
        \<and> (\<forall>k < length [0::nat, 0, 0]. [[], [], []] ! k = ([]::jsval list))"
    by (rule main [THEN conjunct2, THEN conjunct2, THEN conjunct2, THEN mp, OF note_body_toggles])
  have k2: "(2::nat) < length [0::nat, 0, 0]" by simp
  have c4c: "[[], [], []] ! 2 = ([]::jsval list)"
    by (rule c4 [THEN conjunct2, THEN conjunct2, rule_format, OF k2])
  show ?thesis
    by (intro conjI c1 leaf flat_el_opens c2c detail c3a c3b note_body_toggles c4 [THEN conjunct1] c4c)
qed

end
